theory Spec2Isabelle
  imports Complex_Main "HOL-Library.Sublist" "HOL-Library.Multiset"
begin

section \<open>Errors and sequencing\<close>

text \<open>
  Every \<^verbatim>\<open>raise\<close>, failed \<^verbatim>\<open>assert\<close> and failing built-in of
  \<^verbatim>\<open>alm/lm_autoprompt.py\<close> is a value \<open>Inl e\<close>; a normal return is \<open>Inr v\<close>.
\<close>

datatype error =
  AssertionError | ValueError | IndexError | KeyError | ZeroDivisionError
  | NotImplementedError | OSError | RuntimeError

text \<open>\<^verbatim>\<open>list(map(f, xs))\<close> where \<open>f\<close> may raise: the first failing element raises.\<close>

fun mapE :: "('a \<Rightarrow> error + 'b) \<Rightarrow> 'a list \<Rightarrow> error + 'b list" where
  "mapE f [] = Inr []"
| "mapE f (x # xs) =
     (case f x of Inl e \<Rightarrow> Inl e
      | Inr y \<Rightarrow> (case mapE f xs of Inl e \<Rightarrow> Inl e | Inr ys \<Rightarrow> Inr (y # ys)))"

section \<open>Strings\<close>

text \<open>Python's \<^verbatim>\<open>sep.join(xs)\<close>.\<close>

fun join :: "string \<Rightarrow> string list \<Rightarrow> string" where
  "join sep [] = []"
| "join sep [x] = x"
| "join sep (x # y # ys) = x @ sep @ join sep (y # ys)"

text \<open>Python's \<^verbatim>\<open>sub in s\<close> on strings.\<close>

fun contains :: "string \<Rightarrow> string \<Rightarrow> bool" where
  "contains sub [] = (sub = [])"
| "contains sub (c # cs) = (prefix sub (c # cs) \<or> contains sub cs)"

text \<open>Python's \<^verbatim>\<open>xs.index(x)\<close> when \<open>x\<close> occurs in \<open>xs\<close>.\<close>

definition index_of :: "'a list \<Rightarrow> 'a \<Rightarrow> nat" where
  "index_of xs x = length (takeWhile (\<lambda>y. y \<noteq> x) xs)"

text \<open>Python's \<^verbatim>\<open>xs[s:e]\<close> for \<open>0 \<le> s\<close>, \<open>0 \<le> e\<close>.\<close>

definition slice :: "'a list \<Rightarrow> nat \<Rightarrow> nat \<Rightarrow> 'a list" where
  "slice xs s e = take (e - s) (drop s xs)"

text \<open>The characters that \<^verbatim>\<open>\s\<close> matches, among the ASCII ones.\<close>

definition is_space :: "char \<Rightarrow> bool" where
  "is_space c = (of_char c \<in> {9, 10, 11, 12, 13, 28, 29, 30, 31, 32 :: nat})"

text \<open>
  \<^verbatim>\<open>re.sub(pat, rep, s)\<close> for a pattern that is a literal string (the mask token with
  its brackets escaped): leftmost non-overlapping occurrences are replaced.
\<close>

fun sub_literal :: "string \<Rightarrow> string \<Rightarrow> string \<Rightarrow> string" where
  "sub_literal pat rep [] = (if pat = [] then rep else [])"
| "sub_literal pat rep (c # cs) =
     (if pat = [] then rep @ c # sub_literal pat rep cs
      else if prefix pat (c # cs) then rep @ sub_literal pat rep (drop (length pat - 1) cs)
      else c # sub_literal pat rep cs)"

text \<open>\<^verbatim>\<open>re.sub(r'\s+', ' ', s)\<close>.\<close>

function collapse_ws :: "string \<Rightarrow> string" where
  "collapse_ws [] = []"
| "collapse_ws (c # cs) =
     (if is_space c then CHR '' '' # collapse_ws (dropWhile is_space cs)
      else c # collapse_ws cs)"
  by pat_completeness auto
termination
  by (relation "measure length") (auto simp: le_imp_less_Suc length_dropWhile_le)

text \<open>
  \<^verbatim>\<open>re.sub('t1|t2|...', '', s)\<close> for literal alternatives: at each position the
  first alternative that matches is removed.
\<close>

fun first_match :: "string list \<Rightarrow> string \<Rightarrow> string option" where
  "first_match [] s = None"
| "first_match (p # ps) s = (if prefix p s then Some p else first_match ps s)"

function remove_tokens :: "string list \<Rightarrow> string \<Rightarrow> string" where
  "remove_tokens pats [] = []"
| "remove_tokens pats (c # cs) =
     (case first_match pats (c # cs) of
        None \<Rightarrow> c # remove_tokens pats cs
      | Some p \<Rightarrow> if p = [] then c # remove_tokens pats cs
                  else remove_tokens pats (drop (length p - 1) cs))"
  by pat_completeness auto
termination
  by (relation "measure (\<lambda>(pats, s). length s)") auto

section \<open>The external collaborators\<close>

text \<open>
  The tokenizer and the pretrained network belong to the \<^verbatim>\<open>transformers\<close> library.
  They are parameters of the development: a record of the operations the code calls.
  \<open>tok_encode_plus s n\<close> is
  \<^verbatim>\<open>tokenizer.encode_plus(s, max_length=n, truncation=True, padding='max_length')\<close>.
\<close>

record encoding =
  input_ids :: "nat list"
  attention_mask :: "nat list"
  labels :: "int list option"

record tokenizer =
  mask_token :: string
  mask_token_id :: nat
  pad_token_id :: nat
  all_special_tokens :: "string list"
  model_max_length :: nat
  tokenize :: "string \<Rightarrow> string list"
  convert_tokens_to_ids :: "string \<Rightarrow> nat"
  convert_ids_to_tokens :: "nat list \<Rightarrow> string list"
  convert_tokens_to_string :: "string list \<Rightarrow> string"
  encode :: "string \<Rightarrow> nat list"
  tok_encode_plus :: "string \<Rightarrow> nat \<Rightarrow> encoding"
  decode :: "nat list \<Rightarrow> string"

datatype model_type = causal_lm | masked_lm

text \<open>
  The fields of \<^verbatim>\<open>Prompter\<close>. \<open>forward\<close> is the loaded network in evaluation mode:
  the logits (one score list per input position) of one encoded sentence. Inference is
  taken to be a function of the single sentence; a batch is a list of sentences.
\<close>

record prompter =
  model_name :: string
  is_causal :: bool
  tokenizer :: tokenizer
  max_length :: nat
  sp_token_prefix :: "string list"
  sp_token_suffix :: "string list"
  model_type :: "model_type option"
  forward :: "nat list \<Rightarrow> nat list \<Rightarrow> real list list"

abbreviation mask :: "prompter \<Rightarrow> string" where
  "mask P \<equiv> mask_token (tokenizer P)"

section \<open>Module-level helpers\<close>

definition PAD_TOKEN_LABEL_ID :: int where
  "PAD_TOKEN_LABEL_ID = - 100"

definition get_partition :: "'a list list \<Rightarrow> (nat \<times> nat) list" where
  "get_partition xs =
     (let len = map length xs
      in map (\<lambda>x. (sum_list (take x len), sum_list (take (x + 1) len))) [0..<length len])"

text \<open>
  \<^verbatim>\<open>torch.utils.data.DataLoader(..., batch_size=n, shuffle=False, drop_last=False)\<close>:
  consecutive groups of \<open>n\<close>; a batch size that is not positive is refused.
\<close>

function batches :: "nat \<Rightarrow> 'a list \<Rightarrow> 'a list list" where
  "batches n xs = (if n = 0 \<or> xs = [] then [] else take n xs # batches n (drop n xs))"
  by pat_completeness auto
termination
  by (relation "measure (\<lambda>(n, xs). length xs)") auto

declare batches.simps [simp del]

definition data_loader :: "nat \<Rightarrow> 'a list \<Rightarrow> error + 'a list list" where
  "data_loader batch_size xs = (if batch_size = 0 then Inl ValueError else Inr (batches batch_size xs))"

section \<open>Prompter\<close>

subsection \<open>Construction\<close>

text \<open>
  \<open>hub\<close> is \<^verbatim>\<open>AutoTokenizer.from_pretrained\<close> together with
  \<^verbatim>\<open>AutoModelForMaskedLM.from_pretrained\<close>: the tokenizer and network of a model
  name, when the name is known.
\<close>

type_synonym hub = "string \<Rightarrow> (tokenizer \<times> (nat list \<Rightarrow> nat list \<Rightarrow> real list list)) option"

definition first_index :: "'a list \<Rightarrow> 'a \<Rightarrow> error + nat" where
  "first_index xs x = (if x \<in> set xs then Inr (index_of xs x) else Inl ValueError)"

definition Prompter_init :: "hub \<Rightarrow> string \<Rightarrow> nat option \<Rightarrow> error + prompter" where
  "Prompter_init hub model max_length_arg =
     (let causal = contains ''gpt'' model in
      if causal then Inl AssertionError
      else case hub model of
        None \<Rightarrow> Inl OSError
      | Some (tok, net) \<Rightarrow>
          (case (case max_length_arg of
                   None \<Rightarrow> Inr (model_max_length tok)
                 | Some n \<Rightarrow> if n = 0 then Inr (model_max_length tok)
                             else if model_max_length tok \<ge> n then Inr n
                             else Inl AssertionError) of
             Inl e \<Rightarrow> Inl e
           | Inr ml \<Rightarrow>
               (let tokens = tokenize tok ''get tokenizer specific prefix'';
                    tokens_encode =
                      convert_ids_to_tokens tok (encode tok ''get tokenizer specific prefix'')
                in if tokens = [] then Inl IndexError
                   else case first_index tokens_encode (hd tokens) of
                     Inl e \<Rightarrow> Inl e
                   | Inr i \<Rightarrow>
                       (case first_index tokens_encode (last tokens) of
                          Inl e \<Rightarrow> Inl e
                        | Inr j \<Rightarrow>
                            Inr \<lparr> model_name = model, is_causal = causal, tokenizer = tok,
                                  max_length = ml,
                                  sp_token_prefix = take i tokens_encode,
                                  sp_token_suffix = drop (j + 1) tokens_encode,
                                  model_type = None, forward = net \<rparr>))))"

definition load_model :: "prompter \<Rightarrow> prompter" where
  "load_model P =
     (if is_causal P then P\<lparr>model_type := Some causal_lm\<rparr>
      else P\<lparr>model_type := Some masked_lm\<rparr>)"

subsection \<open>Labels\<close>

text \<open>\<^verbatim>\<open>for p, i in zip(label_position, label_id): label[p] = i\<close>.\<close>

fun assign_labels :: "int list \<Rightarrow> (nat \<times> nat) list \<Rightarrow> error + int list" where
  "assign_labels label [] = Inr label"
| "assign_labels label ((p, i) # rest) =
     (if p < length label then assign_labels (label[p := int i]) rest else Inl IndexError)"

text \<open>
  The two optional arguments \<^verbatim>\<open>label_position\<close>, \<^verbatim>\<open>label_id\<close> are passed
  together or not at all.
\<close>

definition input_ids_to_labels ::
  "prompter \<Rightarrow> nat list \<Rightarrow> (nat list \<times> nat list) option \<Rightarrow> error + int list" where
  "input_ids_to_labels P ids lab =
     (case (case lab of
              None \<Rightarrow>
                Inr (map (\<lambda>x. if x = pad_token_id (tokenizer P) then PAD_TOKEN_LABEL_ID else int x) ids)
            | Some (label_position, label_id) \<Rightarrow>
                if length label_position \<noteq> length label_id then Inl AssertionError
                else assign_labels (replicate (length ids) PAD_TOKEN_LABEL_ID)
                       (zip label_position label_id)) of
        Inl e \<Rightarrow> Inl e
      | Inr label \<Rightarrow> Inr (if is_causal P then drop 1 label @ [PAD_TOKEN_LABEL_ID] else label))"

subsection \<open>Cleaning a decoded sentence\<close>

definition cleanup_decode :: "prompter \<Rightarrow> string \<Rightarrow> string" where
  "cleanup_decode P sentence =
     (let cleaned_sent = sub_literal (mask P) ('' '' @ mask P @ '' '') sentence;
          cleaned_sent = collapse_ws cleaned_sent;
          to_remove = filter (\<lambda>x. x \<noteq> mask P) (all_special_tokens (tokenizer P));
          cleaned_sent = remove_tokens to_remove cleaned_sent
      in dropWhile is_space cleaned_sent)"

subsection \<open>Encoding\<close>

definition encode_with_single_mask_id ::
  "prompter \<Rightarrow> string list \<Rightarrow> nat \<Rightarrow> error + encoding option" where
  "encode_with_single_mask_id P token_list mask_position =
     (let T = tokenizer P;
          masked_token_id = convert_tokens_to_ids T (token_list ! mask_position)
      in if masked_token_id = mask_token_id T then Inr None
         else
           (let token_list' = token_list[mask_position := mask_token T];
                tmp_string = convert_tokens_to_string T token_list';
                enc = tok_encode_plus T tmp_string (max_length P)
            in if \<not> length (input_ids enc) < max_length P then Inl AssertionError
               else case input_ids_to_labels P (input_ids enc)
                           (Some ([mask_position + length (sp_token_prefix P)], [masked_token_id])) of
                 Inl e \<Rightarrow> Inl e
               | Inr l \<Rightarrow> Inr (Some (enc\<lparr>labels := Some l\<rparr>))))"

definition encode_plus :: "prompter \<Rightarrow> string \<Rightarrow> bool \<Rightarrow> error + encoding list" where
  "encode_plus P sentence token_wise_mask =
     (if is_causal P then Inl NotImplementedError
      else if \<not> token_wise_mask then
        (if \<not> contains (mask P) sentence then Inl AssertionError
         else
           (let enc = tok_encode_plus (tokenizer P) sentence (max_length P)
            in if \<not> length (input_ids enc) < max_length P then Inl AssertionError
               else Inr [enc]))
      else
        (let token_list = tokenize (tokenizer P) sentence;
             len = min (max_length P - length (sp_token_prefix P)) (length token_list)
         in case mapE (encode_with_single_mask_id P token_list) [0..<len] of
              Inl e \<Rightarrow> Inl e
            | Inr xs \<Rightarrow> Inr (List.map_filter id xs)))"

subsection \<open>Perplexity\<close>

text \<open>
  \<^verbatim>\<open>nn.CrossEntropyLoss(reduction='none')\<close> on the scores of one position and a
  label: the negative log of the softmax probability of the label. A position whose
  label is \<open>PAD_TOKEN_LABEL_ID\<close> (the loss's \<^verbatim>\<open>ignore_index\<close>) contributes 0.
  Scores are real numbers here; rounding and overflow of floats are not modelled.
\<close>

definition cross_entropy :: "real list \<Rightarrow> nat \<Rightarrow> real" where
  "cross_entropy scores y = ln (sum_list (map exp scores)) - scores ! y"

definition position_loss :: "real list \<times> int \<Rightarrow> real" where
  "position_loss = (\<lambda>(scores, label).
     if label = PAD_TOKEN_LABEL_ID then 0 else cross_entropy scores (nat label))"

text \<open>
  One element of a batch in the loop of \<^verbatim>\<open>get_perplexity\<close>: the summed loss of the
  sentence divided by the number of labels that are not ignored. The loss function
  refuses scores and labels of different lengths.
\<close>

definition nll_item :: "prompter \<Rightarrow> encoding \<Rightarrow> error + real" where
  "nll_item P enc =
     (case labels enc of
        None \<Rightarrow> Inl KeyError
      | Some lab \<Rightarrow>
          (let prediction_scores = forward P (input_ids enc) (attention_mask enc);
               loss = sum_list (map position_loss (zip prediction_scores lab));
               n = length (filter (\<lambda>y. y \<noteq> PAD_TOKEN_LABEL_ID) lab)
           in if length prediction_scores \<noteq> length lab then Inl ValueError
              else if n = 0 then Inl ZeroDivisionError
              else Inr (loss / real n)))"

definition partition_perplexity :: "real list \<Rightarrow> nat \<times> nat \<Rightarrow> error + real" where
  "partition_perplexity nll = (\<lambda>(s, e).
     if e - s = 0 then Inl ZeroDivisionError
     else Inr (exp (sum_list (slice nll s e) / real (e - s))))"

definition get_perplexity :: "prompter \<Rightarrow> string list \<Rightarrow> nat \<Rightarrow> error + real list" where
  "get_perplexity P sentences batch_size =
     (case mapE (\<lambda>x. encode_plus P x True) sentences of
        Inl e \<Rightarrow> Inl e
      | Inr data \<Rightarrow>
          (let part = get_partition data
           in case data_loader batch_size (concat data) of
                Inl e \<Rightarrow> Inl e
              | Inr loader \<Rightarrow>
                  (case mapE (mapE (nll_item P)) loader of
                     Inl e \<Rightarrow> Inl e
                   | Inr nlls \<Rightarrow> mapE (partition_perplexity (concat nlls)) part)))"

text \<open>\<^verbatim>\<open>xs[ppl.index(min(ppl))]\<close>; \<^verbatim>\<open>min\<close> of an empty list raises.\<close>

definition pick_min :: "'a list \<Rightarrow> real list \<Rightarrow> error + 'a" where
  "pick_min xs ppl =
     (if ppl = [] then Inl ValueError
      else let i = index_of ppl (min_list ppl)
           in if i < length xs then Inr (xs ! i) else Inl IndexError)"

subsection \<open>Seed sentences\<close>

definition best_candidates :: "prompter \<Rightarrow> string \<Rightarrow> string \<Rightarrow> string list" where
  "best_candidates P h t =
     concat (map (\<lambda>pre_n.
       (let pre = replicate pre_n (mask P) @ [h]
        in map (\<lambda>mid_n.
             (let middle = replicate mid_n (mask P) @ [t]
              in join '' '' (pre @ middle)))
             [1..<max_length P - 1 - pre_n]))
       [0..<max_length P - 2])"

text \<open>The mask counts are natural numbers: a negative count repeats nothing, as 0 does.\<close>

definition pair_to_seed ::
  "prompter \<Rightarrow> string list \<Rightarrow> nat \<Rightarrow> nat \<Rightarrow> nat \<Rightarrow> nat \<Rightarrow> string \<Rightarrow> error + string" where
  "pair_to_seed P word_pair n_blank n_blank_prefix n_blank_suffix batch_size seed_type =
     (case word_pair of
        [h, t] \<Rightarrow>
          if seed_type = ''middle'' then
            Inr (join '' '' ([h] @ replicate n_blank (mask P) @ [t]))
          else if seed_type = ''whole'' then
            Inr (join '' '' (replicate n_blank_prefix (mask P) @ [h] @ replicate n_blank (mask P)
                             @ [t] @ replicate n_blank_suffix (mask P)))
          else if seed_type = ''best'' then
            (let candidates = best_candidates P h t
             in case get_perplexity P candidates batch_size of
                  Inl e \<Rightarrow> Inl e
                | Inr ppl \<Rightarrow> pick_min candidates ppl)
          else Inl ValueError
      | _ \<Rightarrow> Inl AssertionError)"

subsection \<open>Filling one mask\<close>

text \<open>
  \<^verbatim>\<open>scores.topk(k)\<close> on the scores of one position: the \<open>k\<close> largest values with
  their indices, largest first; more than the vocabulary has is refused. Among equal
  scores the lower index comes first.
\<close>

definition topk_scores :: "nat \<Rightarrow> real list \<Rightarrow> error + (real list \<times> nat list)" where
  "topk_scores k scores =
     (if length scores < k then Inl RuntimeError
      else let best = take k (sort_key (\<lambda>(v, i). - v) (zip scores [0..<length scores]))
           in Inr (map fst best, map snd best))"

text \<open>
  One element of a batch in the inference loop of \<^verbatim>\<open>replace_single_mask\<close>: its
  entries of \<^verbatim>\<open>total_input\<close>, \<^verbatim>\<open>total_val\<close> and \<^verbatim>\<open>total_ind\<close>.
\<close>

definition infer_item ::
  "prompter \<Rightarrow> nat \<Rightarrow> encoding \<Rightarrow> error + (nat list \<times> real list list \<times> nat list list)" where
  "infer_item P topk_per_position enc =
     (case mapE (topk_scores topk_per_position) (forward P (input_ids enc) (attention_mask enc)) of
        Inl e \<Rightarrow> Inl e
      | Inr vi \<Rightarrow> Inr (input_ids enc, map fst vi, map snd vi))"

definition decode_topk ::
  "prompter \<Rightarrow> string \<Rightarrow> string \<Rightarrow> nat list \<Rightarrow> nat \<Rightarrow> nat \<Rightarrow> nat list \<Rightarrow> real list
     \<Rightarrow> (string \<times> real) option" where
  "decode_topk P head tail inp k replace_pos ind likelihood =
     (let inp' = inp[replace_pos := ind ! k];
          decoded = decode (tokenizer P) inp';
          decoded = cleanup_decode P decoded
      in if contains head decoded \<and> contains tail decoded then Some (decoded, likelihood ! k)
         else None)"

text \<open>
  The candidates of one element \<open>(inp, val, ind)\<close>: every masked position with each of
  its top predictions. Reading \<open>inp\<close> at a position it does not have raises.
\<close>

definition item_candidates ::
  "prompter \<Rightarrow> string \<Rightarrow> string \<Rightarrow> nat \<Rightarrow> nat list \<times> real list list \<times> nat list list
     \<Rightarrow> error + (string \<times> real) list" where
  "item_candidates P head tail topk_per_position = (\<lambda>(inp, val, ind).
     if length inp < length (zip val ind) then Inl IndexError
     else
       (let filtered = filter (\<lambda>(pos, vi). inp ! pos = mask_token_id (tokenizer P))
                         (zip [0..<length (zip val ind)] (zip val ind))
        in Inr (concat (map (\<lambda>(replace_pos, (v, i)).
                     List.map_filter (\<lambda>k. decode_topk P head tail inp k replace_pos i v)
                       [0..<topk_per_position])
                   filtered))))"

definition process_single_sentence ::
  "prompter \<Rightarrow> string list list \<Rightarrow> (nat \<times> nat) list
     \<Rightarrow> (nat list \<times> real list list \<times> nat list list) list \<Rightarrow> nat \<Rightarrow> nat \<Rightarrow> nat
     \<Rightarrow> error + string list" where
  "process_single_sentence P word_pairs part totals topk topk_per_position partition_n =
     (case word_pairs ! partition_n of
        [head, tail] \<Rightarrow>
          (let (s, e) = part ! partition_n
           in case mapE (\<lambda>i. item_candidates P head tail topk_per_position (totals ! i)) [s..<e] of
                Inl err \<Rightarrow> Inl err
              | Inr found \<Rightarrow>
                  (let topk_decoded = concat found;
                       topk_decoded = sort_key (\<lambda>x. - snd x) topk_decoded;
                       chosen = take (min topk (length topk_decoded)) (map fst topk_decoded)
                   in Inr chosen))
      | _ \<Rightarrow> Inl ValueError)"

text \<open>The list \<^verbatim>\<open>greedy_filling\<close>: the ranked candidates of every sentence.\<close>

definition greedy_filling ::
  "prompter \<Rightarrow> string list \<Rightarrow> string list list \<Rightarrow> nat \<Rightarrow> nat \<Rightarrow> nat \<Rightarrow> error + string list list" where
  "greedy_filling P seed_sentences word_pairs batch_size topk topk_per_position =
     (if length seed_sentences \<noteq> length word_pairs then Inl AssertionError
      else
        (case mapE (\<lambda>x. encode_plus P x (\<not> contains (mask P) x)) seed_sentences of
           Inl e \<Rightarrow> Inl e
         | Inr data \<Rightarrow>
             (let part = get_partition data
              in case data_loader batch_size (concat data) of
                   Inl e \<Rightarrow> Inl e
                 | Inr loader \<Rightarrow>
                     if length word_pairs \<noteq> length part then Inl AssertionError
                     else
                       (case mapE (mapE (infer_item P topk_per_position)) loader of
                          Inl e \<Rightarrow> Inl e
                        | Inr totals \<Rightarrow>
                            mapE (process_single_sentence P word_pairs part (concat totals)
                                    topk topk_per_position)
                              [0..<length part]))))"

text \<open>\<^verbatim>\<open>get_perplexity(sent)\<close> is called with its default batch size 4.\<close>

definition best_edit :: "prompter \<Rightarrow> bool \<Rightarrow> string list list \<Rightarrow> error + string list" where
  "best_edit P perplexity_filter filling =
     (if perplexity_filter then
        mapE (\<lambda>sent. case get_perplexity P sent 4 of
                       Inl e \<Rightarrow> Inl e
                     | Inr ppl \<Rightarrow> pick_min sent ppl) filling
      else mapE (\<lambda>x. case x of [] \<Rightarrow> Inl IndexError | y # _ \<Rightarrow> Inr y) filling)"

definition replace_single_mask ::
  "prompter \<Rightarrow> string list \<Rightarrow> string list list \<Rightarrow> nat \<Rightarrow> nat \<Rightarrow> nat \<Rightarrow> bool
     \<Rightarrow> error + string list" where
  "replace_single_mask P seed_sentences word_pairs batch_size topk topk_per_position perplexity_filter =
     (case greedy_filling P seed_sentences word_pairs batch_size topk topk_per_position of
        Inl e \<Rightarrow> Inl e
      | Inr filling \<Rightarrow> best_edit P perplexity_filter filling)"

subsection \<open>The fill loop and the revision passes\<close>

text \<open>\<^verbatim>\<open>word_pairs\<close> is one pair or a list of pairs.\<close>

datatype word_pairs_arg = One "string list" | Many "string list list"

definition as_pairs :: "word_pairs_arg \<Rightarrow> error + string list list" where
  "as_pairs a =
     (case a of
        One p \<Rightarrow> if p = [] then Inl IndexError else Inr [p]
      | Many ps \<Rightarrow> if ps = [] then Inl IndexError else Inr ps)"

text \<open>The arguments every call of \<^verbatim>\<open>replace_single_mask\<close> shares.\<close>

record shared =
  sh_word_pairs :: "string list list"
  sh_topk :: nat
  sh_topk_per_position :: nat
  sh_batch_size :: nat
  sh_perplexity_filter :: bool

definition step :: "prompter \<Rightarrow> shared \<Rightarrow> string list \<Rightarrow> error + string list" where
  "step P sh seed_sentences =
     replace_single_mask P seed_sentences (sh_word_pairs sh) (sh_batch_size sh) (sh_topk sh)
       (sh_topk_per_position sh) (sh_perplexity_filter sh)"

definition no_mask :: "prompter \<Rightarrow> string list \<Rightarrow> bool" where
  "no_mask P sentences = list_all (\<lambda>i. \<not> contains (mask P) i) sentences"

text \<open>
  \<^verbatim>\<open>while True\<close>: the loop has no bound of its own. \<open>fuel\<close> bounds the number of
  iterations; \<open>None\<close> means the loop is still running when the fuel is spent.
\<close>

fun fill_loop ::
  "nat \<Rightarrow> prompter \<Rightarrow> shared \<Rightarrow> string list \<Rightarrow> string list list
     \<Rightarrow> (error + string list \<times> string list list) option" where
  "fill_loop 0 P sh seed_sentences edit = None"
| "fill_loop (Suc fuel) P sh seed_sentences edit =
     (case step P sh seed_sentences of
        Inl e \<Rightarrow> Some (Inl e)
      | Inr seed_sentences' \<Rightarrow>
          if no_mask P seed_sentences' then Some (Inr (seed_sentences', edit))
          else fill_loop fuel P sh seed_sentences' (edit @ [seed_sentences']))"

text \<open>\<^verbatim>\<open>for i in range(n_revision)\<close>.\<close>

fun revise ::
  "nat \<Rightarrow> prompter \<Rightarrow> shared \<Rightarrow> string list \<Rightarrow> string list list
     \<Rightarrow> error + string list \<times> string list list" where
  "revise 0 P sh seed_sentences edit = Inr (seed_sentences, edit)"
| "revise (Suc n) P sh seed_sentences edit =
     (case step P sh seed_sentences of
        Inl e \<Rightarrow> Inl e
      | Inr seed_sentences' \<Rightarrow> revise n P sh seed_sentences' (edit @ [seed_sentences']))"

text \<open>\<^verbatim>\<open>list(zip(*edit))\<close>: the history of each sentence, as long as the shortest entry.\<close>

definition zip_star :: "'a list list \<Rightarrow> 'a list list" where
  "zip_star xss =
     (if xss = [] then []
      else map (\<lambda>i. map (\<lambda>xs. xs ! i) xss) [0..<min_list (map length xss)])"

definition seed_all ::
  "prompter \<Rightarrow> string list list \<Rightarrow> nat \<Rightarrow> nat \<Rightarrow> nat \<Rightarrow> nat \<Rightarrow> string \<Rightarrow> error + string list" where
  "seed_all P word_pairs n_blank n_blank_prefix n_blank_suffix batch_size seed_type =
     mapE (\<lambda>x. pair_to_seed P x n_blank n_blank_prefix n_blank_suffix batch_size seed_type) word_pairs"

definition replace_mask ::
  "nat \<Rightarrow> prompter \<Rightarrow> word_pairs_arg \<Rightarrow> nat \<Rightarrow> nat \<Rightarrow> nat \<Rightarrow> nat \<Rightarrow> string \<Rightarrow> nat \<Rightarrow> bool
     \<Rightarrow> nat \<Rightarrow> nat \<Rightarrow> (error + string list \<times> string list list) option" where
  "replace_mask fuel P word_pairs_arg n_blank n_revision topk topk_per_position seed_type
       batch_size perplexity_filter n_blank_prefix n_blank_suffix =
     (case as_pairs word_pairs_arg of
        Inl e \<Rightarrow> Some (Inl e)
      | Inr word_pairs \<Rightarrow>
          (case seed_all P word_pairs n_blank n_blank_prefix n_blank_suffix batch_size seed_type of
             Inl e \<Rightarrow> Some (Inl e)
           | Inr seed_sentences \<Rightarrow>
               (let sh = \<lparr> sh_word_pairs = word_pairs, sh_topk = topk,
                           sh_topk_per_position = topk_per_position,
                           sh_batch_size = batch_size,
                           sh_perplexity_filter = perplexity_filter \<rparr>
                in case fill_loop fuel P sh seed_sentences [seed_sentences] of
                     None \<Rightarrow> None
                   | Some (Inl e) \<Rightarrow> Some (Inl e)
                   | Some (Inr (filled, edit)) \<Rightarrow>
                       (case revise n_revision P sh filled edit of
                          Inl e \<Rightarrow> Some (Inl e)
                        | Inr (final, edit') \<Rightarrow> Some (Inr (final, zip_star edit'))))))"

section \<open>Notions the properties are stated with\<close>

text \<open>A sentence keeps a word pair when head and tail both occur in it.\<close>

definition keeps_pair :: "string list \<Rightarrow> string \<Rightarrow> bool" where
  "keeps_pair word_pair s = (case word_pair of [h, t] \<Rightarrow> contains h s \<and> contains t s | _ \<Rightarrow> False)"

text \<open>The template with \<open>pre_n\<close> masks, the head, \<open>mid_n\<close> masks and the tail.\<close>

definition template :: "prompter \<Rightarrow> string \<Rightarrow> string \<Rightarrow> nat \<Rightarrow> nat \<Rightarrow> string" where
  "template P h t pre_n mid_n =
     join '' '' (replicate pre_n (mask P) @ [h] @ replicate mid_n (mask P) @ [t])"

text \<open>
  The perplexity of one sentence as the specification words it: one variant per token
  position that is not a mask (among the positions the maximum length admits), each
  with that one position masked; the cross-entropy of the prediction at the masked
  position against the true token; the sum of these losses divided by the number of
  variants; the exponential of that average.
\<close>

definition variant_positions :: "prompter \<Rightarrow> string \<Rightarrow> nat list" where
  "variant_positions P s =
     (let toks = tokenize (tokenizer P) s
      in filter (\<lambda>p. convert_tokens_to_ids (tokenizer P) (toks ! p) \<noteq> mask_token_id (tokenizer P))
           [0..<min (max_length P - length (sp_token_prefix P)) (length toks)])"

text \<open>The variant of a sentence with position \<open>p\<close> masked and the true token as its label.\<close>

definition variant :: "prompter \<Rightarrow> string \<Rightarrow> nat \<Rightarrow> encoding" where
  "variant P s p =
     (let T = tokenizer P;
          toks = tokenize T s;
          enc = tok_encode_plus T (convert_tokens_to_string T (toks[p := mask_token T])) (max_length P)
      in enc\<lparr>labels := Some ((replicate (length (input_ids enc)) PAD_TOKEN_LABEL_ID)
                               [p + length (sp_token_prefix P) := int (convert_tokens_to_ids T (toks ! p))])\<rparr>)"

definition variant_loss :: "prompter \<Rightarrow> string \<Rightarrow> nat \<Rightarrow> real" where
  "variant_loss P s p =
     (let T = tokenizer P;
          toks = tokenize T s;
          enc = tok_encode_plus T (convert_tokens_to_string T (toks[p := mask_token T])) (max_length P)
      in cross_entropy (forward P (input_ids enc) (attention_mask enc) ! (p + length (sp_token_prefix P)))
           (convert_tokens_to_ids T (toks ! p)))"

definition sentence_perplexity :: "prompter \<Rightarrow> string \<Rightarrow> real" where
  "sentence_perplexity P s =
     exp (sum_list (map (variant_loss P s) (variant_positions P s))
          / real (length (variant_positions P s)))"

text \<open>The computation of \<^verbatim>\<open>get_perplexity\<close> on one sentence alone.\<close>

definition perplexity_of :: "prompter \<Rightarrow> string \<Rightarrow> error + real" where
  "perplexity_of P s =
     (case encode_plus P s True of
        Inl e \<Rightarrow> Inl e
      | Inr encs \<Rightarrow>
          (case mapE (nll_item P) encs of
             Inl e \<Rightarrow> Inl e
           | Inr ls \<Rightarrow> if ls = [] then Inl ZeroDivisionError
                       else Inr (exp (sum_list ls / real (length ls)))))"

section \<open>Example tokenizers and networks\<close>

text \<open>Python's \<^verbatim>\<open>s.split()\<close>.\<close>

fun split_acc :: "string \<Rightarrow> string \<Rightarrow> string list" where
  "split_acc acc [] = (if acc = [] then [] else [acc])"
| "split_acc acc (c # cs) =
     (if is_space c then (if acc = [] then split_acc [] cs else acc # split_acc [] cs)
      else split_acc (acc @ [c]) cs)"

definition split_ws :: "string \<Rightarrow> string list" where
  "split_ws s = split_acc [] s"

text \<open>A word-level vocabulary in the layout of RoBERTa's: the special tokens first.\<close>

definition vocab :: "string list" where
  "vocab = [''<s>'', ''<pad>'', ''</s>'', ''<unk>'', ''<mask>'', ''dog'', ''pet'', ''is'',
              ''get'', ''prefix'']"

definition token_id :: "string \<Rightarrow> nat" where
  "token_id w = (if w \<in> set vocab then index_of vocab w else 3)"

definition id_token :: "nat \<Rightarrow> string" where
  "id_token i = (if i < length vocab then vocab ! i else ''<unk>'')"

definition word_encode :: "string \<Rightarrow> nat list" where
  "word_encode s = [0] @ map token_id (split_ws s) @ [2]"

text \<open>
  \<open>word_tokenizer\<close> truncates to the maximum length and does not pad;
  \<open>padding_tokenizer\<close> also pads to the maximum length, as the library does for
  \<^verbatim>\<open>padding='max_length'\<close>.
\<close>

definition word_tokenizer :: tokenizer where
  "word_tokenizer =
     \<lparr> mask_token = ''<mask>'', mask_token_id = 4, pad_token_id = 1,
       all_special_tokens = [''<s>'', ''</s>'', ''<unk>'', ''<pad>'', ''<mask>''],
       model_max_length = 512,
       tokenize = split_ws,
       convert_tokens_to_ids = token_id,
       convert_ids_to_tokens = map id_token,
       convert_tokens_to_string = join '' '',
       encode = word_encode,
       tok_encode_plus = (\<lambda>s n. \<lparr> input_ids = take n (word_encode s),
                                     attention_mask = replicate (length (take n (word_encode s))) 1,
                                     labels = None \<rparr>),
       decode = (\<lambda>ids. join '' '' (map id_token ids)) \<rparr>"

definition pad_to :: "nat \<Rightarrow> nat \<Rightarrow> nat list \<Rightarrow> nat list" where
  "pad_to n p ids = take n ids @ replicate (n - length ids) p"

definition padding_tokenizer :: tokenizer where
  "padding_tokenizer =
     word_tokenizer
       \<lparr> tok_encode_plus := (\<lambda>s n. \<lparr> input_ids = pad_to n 1 (word_encode s),
                                      attention_mask = pad_to n 0 (map (\<lambda>_. 1) (word_encode s)),
                                      labels = None \<rparr>) \<rparr>"

text \<open>A tokenizer without special tokens around the sentence that keeps two words.\<close>

definition short_tokenizer :: tokenizer where
  "short_tokenizer =
     word_tokenizer
       \<lparr> tokenize := (\<lambda>s. take 2 (split_ws s)),
         encode := (\<lambda>s. map token_id (take 2 (split_ws s))),
         tok_encode_plus := (\<lambda>s n. \<lparr> input_ids = take n (map token_id (take 2 (split_ws s))),
                                      attention_mask = replicate (min n (length (take 2 (split_ws s)))) 1,
                                      labels = None \<rparr>) \<rparr>"

text \<open>
  Networks over the vocabulary that score one token 1 and the others 0 at every
  position: \<open>net_is\<close> prefers the word \<open>is\<close>.
\<close>

definition net_prefers :: "nat \<Rightarrow> nat list \<Rightarrow> nat list \<Rightarrow> real list list" where
  "net_prefers w ids am = map (\<lambda>_. map (\<lambda>i. if i = w then 1 else 0) [0..<length vocab]) ids"

definition net_is :: "nat list \<Rightarrow> nat list \<Rightarrow> real list list" where
  "net_is = net_prefers 7"

definition example_hub :: hub where
  "example_hub name =
     (if name = ''word-base'' then Some (word_tokenizer, net_is)
      else if name = ''word-gpt'' then Some (word_tokenizer, net_is)
      else None)"

definition word_prompter :: "nat \<Rightarrow> prompter" where
  "word_prompter n =
     \<lparr> model_name = ''word-base'', is_causal = False, tokenizer = word_tokenizer,
       max_length = n, sp_token_prefix = [''<s>''], sp_token_suffix = [''</s>''],
       model_type = None, forward = net_is \<rparr>"

definition padding_prompter :: prompter where
  "padding_prompter = (word_prompter 8)\<lparr>tokenizer := padding_tokenizer\<rparr>"

definition short_prompter :: prompter where
  "short_prompter =
     (word_prompter 4)\<lparr>tokenizer := short_tokenizer, sp_token_prefix := [], sp_token_suffix := []\<rparr>"

definition example_shared :: "bool \<Rightarrow> shared" where
  "example_shared pf =
     \<lparr> sh_word_pairs = [[''dog'', ''pet'']], sh_topk = 1, sh_topk_per_position = 1,
       sh_batch_size = 4, sh_perplexity_filter = pf \<rparr>"

section \<open>Sequencing lemmas\<close>

lemma mapE_Inr_iff: "mapE f xs = Inr ys \<longleftrightarrow> list_all2 (\<lambda>x y. f x = Inr y) xs ys"
proof (induction xs arbitrary: ys)
  case Nil
  then show ?case by auto
next
  case (Cons x xs)
  show ?case
  proof (cases ys)
    case Nil
    then show ?thesis by (auto split: sum.splits)
  next
    case (Cons y ys')
    then show ?thesis using Cons.IH[of ys'] by (auto split: sum.splits)
  qed
qed

lemma mapE_Inl: "mapE f xs = Inl e \<Longrightarrow> \<exists>x\<in>set xs. f x = Inl e"
  by (induction xs) (auto split: sum.splits)

lemma mapE_fails: "x \<in> set xs \<Longrightarrow> f x = Inl e \<Longrightarrow> \<exists>e'. mapE f xs = Inl e'"
  by (induction xs) (auto split: sum.splits)

lemma mapE_map: "(\<And>x. x \<in> set xs \<Longrightarrow> f x = Inr (g x)) \<Longrightarrow> mapE f xs = Inr (map g xs)"
  by (induction xs) auto

lemma mapE_map_list: "mapE f (map g xs) = mapE (\<lambda>x. f (g x)) xs"
  by (induction xs) (simp_all split: sum.splits)

lemma batches_Nil [simp]: "batches n [] = []"
  by (subst batches.simps) simp

lemma batches_step: "0 < n \<Longrightarrow> xs \<noteq> [] \<Longrightarrow> batches n xs = take n xs # batches n (drop n xs)"
  by (subst batches.simps) simp

lemma get_perplexity_Nil:
  "get_perplexity P [] batch_size = (if batch_size = 0 then Inl ValueError else Inr [])"
  by (simp add: get_perplexity_def get_partition_def data_loader_def)

section \<open>Seed sentences\<close>

text \<open>
  C7. With \<^verbatim>\<open>seed_type='middle'\<close>, \<^verbatim>\<open>pair_to_seed\<close> returns the head, \<open>n_blank\<close>
  mask tokens and the tail joined by single spaces; for the pair \<open>a\<close>, \<open>b\<close>, three
  blanks and the mask token \<^verbatim>\<open><mask>\<close> this is \<^verbatim>\<open>a <mask> <mask> <mask> b\<close>.
\<close>

theorem pair_to_seed_middle:
  "pair_to_seed P [h, t] n_blank n_blank_prefix n_blank_suffix batch_size ''middle''
     = Inr (join '' '' ([h] @ replicate n_blank (mask P) @ [t]))
   \<and> pair_to_seed (P\<lparr>tokenizer := (tokenizer P)\<lparr>mask_token := ''<mask>''\<rparr>\<rparr>) [''a'', ''b''] 3
        n_blank_prefix n_blank_suffix batch_size ''middle''
     = Inr ''a <mask> <mask> <mask> b''"
  by (simp add: pair_to_seed_def numeral_3_eq_3)

section \<open>Construction\<close>

lemma split_ws_probe:
  "split_ws ''get tokenizer specific prefix'' = [''get'', ''tokenizer'', ''specific'', ''prefix'']"
  by code_simp

lemma word_encode_probe:
  "map id_token (word_encode ''get tokenizer specific prefix'')
     = [''<s>'', ''get'', ''<unk>'', ''<unk>'', ''prefix'', ''</s>'']"
  by code_simp

lemma index_of_probe:
  "index_of [''<s>'', ''get'', ''<unk>'', ''<unk>'', ''prefix'', ''</s>''] ''get'' = 1
   \<and> index_of [''<s>'', ''get'', ''<unk>'', ''<unk>'', ''prefix'', ''</s>''] ''prefix'' = 4"
  by code_simp

lemma contains_gpt_probe: "contains ''gpt'' ''word-gpt'' \<and> \<not> contains ''gpt'' ''word-base''"
  by code_simp

lemma Prompter_init_example:
  "Prompter_init example_hub ''word-base'' (Some 8) = Inr (word_prompter 8)"
  by (simp add: Prompter_init_def example_hub_def word_tokenizer_def split_ws_probe
      word_encode_probe first_index_def index_of_probe contains_gpt_probe word_prompter_def)

text \<open>
  C10. A model name that contains \<open>gpt\<close> makes the constructor fail with the assertion,
  whatever the hub holds (so before anything is loaded); hence every constructed
  \<^verbatim>\<open>Prompter\<close> is not causal: \<^verbatim>\<open>load_model\<close> takes the masked-LM branch and
  \<^verbatim>\<open>input_ids_to_labels\<close> does not shift the labels.
\<close>

theorem gpt_model_rejected:
  "(contains ''gpt'' name \<longrightarrow> Prompter_init hub name ml = Inl AssertionError)
   \<and> (\<forall>P. Prompter_init hub name ml = Inr P \<longrightarrow>
         \<not> contains ''gpt'' name \<and> \<not> is_causal P
         \<and> model_type (load_model P) = Some masked_lm
         \<and> input_ids_to_labels P ids None
             = Inr (map (\<lambda>x. if x = pad_token_id (tokenizer P) then PAD_TOKEN_LABEL_ID else int x) ids))"
  by (auto simp: Prompter_init_def Let_def load_model_def input_ids_to_labels_def
      split: option.splits sum.splits if_splits prod.splits)

theorem gpt_model_rejected_witness:
  "contains ''gpt'' ''word-gpt''
   \<and> Prompter_init example_hub ''word-gpt'' (Some 8) = Inl AssertionError
   \<and> Prompter_init example_hub ''word-base'' (Some 8) = Inr (word_prompter 8)
   \<and> \<not> is_causal (word_prompter 8)
   \<and> model_type (load_model (word_prompter 8)) = Some masked_lm"
  using gpt_model_rejected[of "''word-gpt''" example_hub "Some 8" "[]"]
    gpt_model_rejected[of "''word-base''" example_hub "Some 8" "[]"]
    Prompter_init_example contains_gpt_probe
  by simp

section \<open>Encoding\<close>

text \<open>
  C3. The assertion of \<^verbatim>\<open>encode_plus\<close> carries the message \<^verbatim>\<open>exceed max_length\<close>
  but tests \<^verbatim>\<open>len(input_ids) < max_length\<close>: an encoding of exactly the maximum
  length does not exceed it and is refused. A sentence of five ids with maximum length
  5 fails, and so does every sentence once the tokenizer pads to the maximum length.
\<close>

theorem encode_plus_rejects_exact_fit:
  "encode_plus (word_prompter 5) ''dog <mask> pet'' False = Inl AssertionError
   \<and> input_ids (tok_encode_plus word_tokenizer ''dog <mask> pet'' 5) = [0, 5, 4, 6, 2]
   \<and> encode_plus padding_prompter ''dog <mask> pet'' False = Inl AssertionError
   \<and> input_ids (tok_encode_plus padding_tokenizer ''dog <mask> pet'' 8) = [0, 5, 4, 6, 2, 1, 1, 1]
   \<and> max_length padding_prompter = 8"
  by code_simp

section \<open>Head and tail survive every edit\<close>

lemma decode_topk_keeps:
  "decode_topk P head tail inp k replace_pos ind likelihood = Some (d, l) \<Longrightarrow>
     contains head d \<and> contains tail d"
  by (auto simp: decode_topk_def Let_def split: if_splits)

lemma item_candidates_keep:
  assumes "item_candidates P head tail n item = Inr cs" "(d, l) \<in> set cs"
  shows "contains head d \<and> contains tail d"
proof -
  obtain inp val ind where item: "item = (inp, val, ind)" by (cases item) auto
  from assms obtain replace_pos v i k
    where "decode_topk P head tail inp k replace_pos i v = Some (d, l)"
    by (auto simp: item_candidates_def item Let_def List.map_filter_def split: if_splits)
  then show ?thesis by (rule decode_topk_keeps)
qed

lemma process_single_sentence_keeps:
  assumes "process_single_sentence P word_pairs part totals topk n partition_n = Inr chosen"
    and "s \<in> set chosen"
  shows "keeps_pair (word_pairs ! partition_n) s"
proof -
  from assms(1) obtain head tail where wp: "word_pairs ! partition_n = [head, tail]"
    by (auto simp: process_single_sentence_def split: list.splits)
  obtain a b where ab: "part ! partition_n = (a, b)" by (cases "part ! partition_n") auto
  from assms(1) wp ab obtain found
    where found: "mapE (\<lambda>i. item_candidates P head tail n (totals ! i)) [a..<b] = Inr found"
      and chosen: "chosen = take (min topk (length (concat found)))
                      (map fst (sort_key (\<lambda>x. - snd x) (concat found)))"
    by (auto simp: process_single_sentence_def Let_def split: sum.splits)
  from assms(2) chosen have "s \<in> fst ` set (concat found)"
    by (auto dest!: in_set_takeD)
  then obtain l cs where cs: "cs \<in> set found" "(s, l) \<in> set cs" by auto
  from found have "list_all2 (\<lambda>i y. item_candidates P head tail n (totals ! i) = Inr y) [a..<b] found"
    by (simp add: mapE_Inr_iff)
  with cs(1) obtain i where i: "item_candidates P head tail n (totals ! i) = Inr cs"
    by (auto simp: list_all2_conv_all_nth in_set_conv_nth)
  have "contains head s \<and> contains tail s" using item_candidates_keep[OF i cs(2)] .
  then show ?thesis by (simp add: keeps_pair_def wp)
qed

lemma length_get_partition: "length (get_partition xs) = length xs"
  by (simp add: get_partition_def Let_def)

lemma greedy_filling_keeps:
  assumes "greedy_filling P seed_sentences word_pairs batch_size topk n = Inr filling"
  shows "list_all2 (\<lambda>wp sent. \<forall>s\<in>set sent. keeps_pair wp s) word_pairs filling"
proof -
  from assms obtain data loader totals
    where len: "length seed_sentences = length word_pairs"
      and data: "mapE (\<lambda>x. encode_plus P x (\<not> contains (mask P) x)) seed_sentences = Inr data"
      and fill: "mapE (process_single_sentence P word_pairs (get_partition data) (concat totals) topk n)
                   [0..<length (get_partition data)] = Inr filling"
    by (auto simp: greedy_filling_def Let_def split: if_splits sum.splits)
  from data have "length data = length seed_sentences"
    by (auto simp: mapE_Inr_iff dest: list_all2_lengthD)
  with len have n: "length (get_partition data) = length word_pairs"
    by (simp add: length_get_partition)
  from fill have all: "list_all2 (\<lambda>i y. process_single_sentence P word_pairs (get_partition data)
                         (concat totals) topk n i = Inr y) [0..<length word_pairs] filling"
    by (simp add: mapE_Inr_iff n)
  then have lf: "length filling = length word_pairs" by (auto dest: list_all2_lengthD)
  show ?thesis
    unfolding list_all2_conv_all_nth
  proof (intro conjI allI impI ballI)
    show "length word_pairs = length filling" using lf by simp
  next
    fix i s assume i: "i < length word_pairs" and s: "s \<in> set (filling ! i)"
    from all i have "process_single_sentence P word_pairs (get_partition data) (concat totals) topk n i
                       = Inr (filling ! i)"
      by (auto simp: list_all2_conv_all_nth)
    then show "keeps_pair (word_pairs ! i) s" using s by (rule process_single_sentence_keeps)
  qed
qed

lemma pick_min_member: "pick_min xs ppl = Inr x \<Longrightarrow> x \<in> set xs"
  by (auto simp: pick_min_def Let_def split: if_splits)

lemma best_edit_member:
  assumes "best_edit P pf filling = Inr out"
  shows "list_all2 (\<lambda>sent s. s \<in> set sent) filling out"
proof (cases pf)
  case True
  with assms have "list_all2 (\<lambda>sent s. (case get_perplexity P sent 4 of Inl e \<Rightarrow> Inl e
                                          | Inr ppl \<Rightarrow> pick_min sent ppl) = Inr s) filling out"
    by (simp add: best_edit_def mapE_Inr_iff)
  then show ?thesis
    by (rule list_all2_mono) (auto split: sum.splits dest: pick_min_member)
next
  case False
  with assms have "list_all2 (\<lambda>x s. (case x of [] \<Rightarrow> Inl IndexError | y # _ \<Rightarrow> Inr y) = Inr s) filling out"
    by (simp add: best_edit_def mapE_Inr_iff)
  then show ?thesis
    by (rule list_all2_mono) (auto split: list.splits)
qed

lemma replace_single_mask_keeps:
  assumes "replace_single_mask P seed_sentences word_pairs batch_size topk n pf = Inr out"
  shows "list_all2 keeps_pair word_pairs out"
proof -
  from assms obtain filling
    where f: "greedy_filling P seed_sentences word_pairs batch_size topk n = Inr filling"
      and b: "best_edit P pf filling = Inr out"
    by (auto simp: replace_single_mask_def split: sum.splits)
  from greedy_filling_keeps[OF f] best_edit_member[OF b]
  show ?thesis
    by (auto simp: list_all2_conv_all_nth)
qed

lemma length_get_perplexity:
  "get_perplexity P sentences batch_size = Inr ppl \<Longrightarrow> length ppl = length sentences"
  by (auto simp: get_perplexity_def Let_def mapE_Inr_iff length_get_partition
      split: sum.splits dest!: list_all2_lengthD)

lemma index_of_less: "x \<in> set xs \<Longrightarrow> index_of xs x < length xs"
  unfolding index_of_def by (induction xs) auto

lemma pick_min_nonempty:
  "ppl \<noteq> [] \<Longrightarrow> length ppl = length xs \<Longrightarrow> \<exists>x. pick_min xs ppl = Inr x"
proof -
  assume ne: "ppl \<noteq> []" and len: "length ppl = length xs"
  have "min_list ppl \<in> set ppl" using ne by (simp add: min_list_Min)
  then have "index_of ppl (min_list ppl) < length ppl"
    by (rule index_of_less)
  then show ?thesis using ne len by (simp add: pick_min_def Let_def)
qed

lemma contains_iff_sublist: "contains xs ys \<longleftrightarrow> sublist xs ys"
  by (induction ys) (auto simp: sublist_Cons_right)

lemma sublist_prepend: "sublist x r \<Longrightarrow> sublist x (p @ r)"
  unfolding sublist_def by (metis append.assoc)

lemma sublist_join: "x \<in> set xs \<Longrightarrow> sublist x (join sep xs)"
proof (induction sep xs rule: join.induct)
  case (1 sep)
  then show ?case by simp
next
  case (2 sep x')
  then show ?case by simp
next
  case (3 sep a b ys)
  show ?case
  proof (cases "x = a")
    case True
    have "sublist a (a @ (sep @ join sep (b # ys)))" by (rule sublist_append_rightI)
    then show ?thesis using True by simp
  next
    case False
    with 3 have "sublist x (join sep (b # ys))" by auto
    then have "sublist x ((a @ sep) @ join sep (b # ys))" by (rule sublist_prepend)
    then show ?thesis by simp
  qed
qed

lemma contains_join: "x \<in> set xs \<Longrightarrow> contains x (join sep xs)"
  by (simp add: contains_iff_sublist sublist_join)

lemma best_candidates_keep:
  assumes "c \<in> set (best_candidates P h t)"
  shows "contains h c \<and> contains t c"
proof -
  from assms obtain pre_n mid_n
    where c: "c = join '' '' ((replicate pre_n (mask P) @ [h]) @ (replicate mid_n (mask P) @ [t]))"
    unfolding best_candidates_def Let_def by auto
  show ?thesis unfolding c by (intro conjI contains_join) simp_all
qed

lemma pair_to_seed_keeps:
  assumes "pair_to_seed P wp n_blank n_blank_prefix n_blank_suffix batch_size seed_type = Inr s"
  shows "keeps_pair wp s"
proof -
  from assms obtain h t where wp: "wp = [h, t]"
    by (auto simp: pair_to_seed_def split: list.splits)
  note a = assms[unfolded wp pair_to_seed_def list.case]
  have "contains h s \<and> contains t s"
  proof (cases "seed_type = ''middle''")
    case True
    with a have "s = join '' '' ([h] @ replicate n_blank (mask P) @ [t])" by simp
    then show ?thesis by (auto intro!: contains_join)
  next
    case nm: False
    show ?thesis
    proof (cases "seed_type = ''whole''")
      case True
      with a nm have "s = join '' '' (replicate n_blank_prefix (mask P) @ [h]
          @ replicate n_blank (mask P) @ [t] @ replicate n_blank_suffix (mask P))" by simp
      then show ?thesis by (auto intro!: contains_join)
    next
      case nw: False
      show ?thesis
      proof (cases "seed_type = ''best''")
        case True
        with a nm nw obtain ppl where "pick_min (best_candidates P h t) ppl = Inr s"
          by (auto simp: Let_def split: sum.splits)
        then have "s \<in> set (best_candidates P h t)" by (rule pick_min_member)
        then show ?thesis by (rule best_candidates_keep)
      next
        case False
        with a nm nw show ?thesis by simp
      qed
    qed
  qed
  then show ?thesis by (simp add: keeps_pair_def wp)
qed

lemma seed_all_keeps:
  "seed_all P wps n_blank n_blank_prefix n_blank_suffix batch_size seed_type = Inr seeds
     \<Longrightarrow> list_all2 keeps_pair wps seeds"
  unfolding seed_all_def mapE_Inr_iff
  by (erule list_all2_mono) (auto dest: pair_to_seed_keeps)

lemma step_keeps: "step P sh w = Inr w' \<Longrightarrow> list_all2 keeps_pair (sh_word_pairs sh) w'"
  unfolding step_def by (rule replace_single_mask_keeps)

lemma fill_loop_keeps:
  "fill_loop fuel P sh cur edit = Some (Inr (w, edit')) \<Longrightarrow>
   \<forall>ss\<in>set edit. list_all2 keeps_pair (sh_word_pairs sh) ss \<Longrightarrow>
   list_all2 keeps_pair (sh_word_pairs sh) w
   \<and> (\<forall>ss\<in>set edit'. list_all2 keeps_pair (sh_word_pairs sh) ss)"
proof (induction fuel arbitrary: cur edit)
  case 0
  then show ?case by simp
next
  case (Suc fuel)
  from Suc.prems(1) obtain cur' where st: "step P sh cur = Inr cur'"
    by (cases "step P sh cur") simp_all
  note k = step_keeps[OF st]
  show ?case
  proof (cases "no_mask P cur'")
    case True
    with Suc.prems(1) st have "w = cur'" "edit' = edit" by simp_all
    with Suc.prems(2) k show ?thesis by simp
  next
    case False
    with Suc.prems(1) st have rec: "fill_loop fuel P sh cur' (edit @ [cur']) = Some (Inr (w, edit'))"
      by simp
    have inv: "\<forall>ss\<in>set (edit @ [cur']). list_all2 keeps_pair (sh_word_pairs sh) ss"
      using Suc.prems(2) k by simp
    show ?thesis by (rule Suc.IH[OF rec inv])
  qed
qed

lemma fill_loop_edit_nonempty:
  "fill_loop fuel P sh cur edit = Some (Inr (w, edit')) \<Longrightarrow> edit \<noteq> [] \<Longrightarrow> edit' \<noteq> []"
proof (induction fuel arbitrary: cur edit)
  case 0
  then show ?case by simp
next
  case (Suc fuel)
  from Suc.prems(1) obtain cur' where st: "step P sh cur = Inr cur'"
    by (cases "step P sh cur") simp_all
  show ?case
  proof (cases "no_mask P cur'")
    case True
    with Suc.prems st show ?thesis by simp
  next
    case False
    with Suc.prems(1) st have rec: "fill_loop fuel P sh cur' (edit @ [cur']) = Some (Inr (w, edit'))"
      by simp
    show ?thesis by (rule Suc.IH[OF rec]) simp
  qed
qed

lemma revise_keeps:
  "revise n P sh cur edit = Inr (w, edit') \<Longrightarrow>
   list_all2 keeps_pair (sh_word_pairs sh) cur \<Longrightarrow>
   \<forall>ss\<in>set edit. list_all2 keeps_pair (sh_word_pairs sh) ss \<Longrightarrow>
   list_all2 keeps_pair (sh_word_pairs sh) w
   \<and> (\<forall>ss\<in>set edit'. list_all2 keeps_pair (sh_word_pairs sh) ss)"
proof (induction n arbitrary: cur edit)
  case 0
  then show ?case by simp
next
  case (Suc n)
  from Suc.prems(1) obtain cur' where st: "step P sh cur = Inr cur'"
    by (cases "step P sh cur") simp_all
  with Suc.prems(1) have r: "revise n P sh cur' (edit @ [cur']) = Inr (w, edit')"
    by simp
  have inv: "\<forall>ss\<in>set (edit @ [cur']). list_all2 keeps_pair (sh_word_pairs sh) ss"
    using Suc.prems(3) step_keeps[OF st] by simp
  show ?case by (rule Suc.IH[OF r step_keeps[OF st] inv])
qed

lemma revise_edit_nonempty:
  "revise n P sh cur edit = Inr (w, edit') \<Longrightarrow> edit \<noteq> [] \<Longrightarrow> edit' \<noteq> []"
proof (induction n arbitrary: cur edit)
  case 0
  then show ?case by simp
next
  case (Suc n)
  from Suc.prems(1) obtain cur' where st: "step P sh cur = Inr cur'"
    by (cases "step P sh cur") simp_all
  with Suc.prems(1) have r: "revise n P sh cur' (edit @ [cur']) = Inr (w, edit')"
    by simp
  show ?case by (rule Suc.IH[OF r]) simp
qed

lemma min_list_const:
  "xs \<noteq> [] \<Longrightarrow> \<forall>x\<in>set xs. x = (n::nat) \<Longrightarrow> min_list xs = n"
proof (induction xs)
  case Nil
  then show ?case by simp
next
  case (Cons a xs)
  then show ?case by (cases xs) simp_all
qed

lemma zip_star_keeps:
  assumes "edit \<noteq> []" "\<forall>ss\<in>set edit. list_all2 keeps_pair wps ss"
  shows "list_all2 (\<lambda>wp hist. \<forall>s\<in>set hist. keeps_pair wp s) wps (zip_star edit)"
proof -
  have len: "\<forall>x\<in>set (map length edit). x = length wps"
  proof
    fix x assume "x \<in> set (map length edit)"
    then obtain ss where "ss \<in> set edit" "x = length ss" by auto
    with assms(2) show "x = length wps" by (metis list_all2_lengthD)
  qed
  have "map length edit \<noteq> []" using assms(1) by simp
  then have "min_list (map length edit) = length wps"
    using len by (rule min_list_const)
  then have z: "zip_star edit = map (\<lambda>i. map (\<lambda>xs. xs ! i) edit) [0..<length wps]"
    using assms(1) by (simp add: zip_star_def)
  show ?thesis
  proof (rule list_all2_all_nthI)
    show "length wps = length (zip_star edit)" by (simp add: z)
  next
    fix i assume i: "i < length wps"
    show "\<forall>s\<in>set (zip_star edit ! i). keeps_pair (wps ! i) s"
    proof
      fix s assume "s \<in> set (zip_star edit ! i)"
      with i obtain ss where ss: "ss \<in> set edit" "s = ss ! i" by (auto simp: z)
      with assms(2) have "list_all2 keeps_pair wps ss" by simp
      then show "keeps_pair (wps ! i) s" unfolding ss(2) using i by (rule list_all2_nthD)
    qed
  qed
qed

text \<open>
  C2. Every sentence \<^verbatim>\<open>replace_single_mask\<close> returns contains the head and the
  tail of its word pair, because a decoded candidate passes the filter only if both
  occur in it; so do the final sentences and the whole edit history of
  \<^verbatim>\<open>replace_mask\<close>, whose first entries are the seed sentences.
\<close>

theorem head_tail_preserved:
  "(replace_single_mask P seed_sentences wps batch_size topk n pf = Inr out \<longrightarrow>
      list_all2 keeps_pair wps out)
   \<and> (decode_topk P head tail inp k replace_pos ind likelihood = Some (d, l) \<longrightarrow>
        contains head d \<and> contains tail d)
   \<and> (as_pairs arg = Inr wps'
        \<and> replace_mask fuel P arg n_blank n_revision topk' n' seed_type batch_size' pf'
            n_blank_prefix n_blank_suffix = Some (Inr (final, edit)) \<longrightarrow>
        list_all2 keeps_pair wps' final
        \<and> list_all2 (\<lambda>wp hist. \<forall>s\<in>set hist. keeps_pair wp s) wps' edit)"
proof (intro conjI impI)
  assume "replace_single_mask P seed_sentences wps batch_size topk n pf = Inr out"
  then show "list_all2 keeps_pair wps out" by (rule replace_single_mask_keeps)
next
  assume "decode_topk P head tail inp k replace_pos ind likelihood = Some (d, l)"
  then show "contains head d" "contains tail d" by (auto dest: decode_topk_keeps)
next
  assume a: "as_pairs arg = Inr wps'
        \<and> replace_mask fuel P arg n_blank n_revision topk' n' seed_type batch_size' pf'
            n_blank_prefix n_blank_suffix = Some (Inr (final, edit))"
  define sh where "sh = \<lparr> sh_word_pairs = wps', sh_topk = topk', sh_topk_per_position = n',
      sh_batch_size = batch_size', sh_perplexity_filter = pf' \<rparr>"
  have shw: "sh_word_pairs sh = wps'" by (simp add: sh_def)
  from a have ap: "as_pairs arg = Inr wps'"
    and r: "replace_mask fuel P arg n_blank n_revision topk' n' seed_type batch_size' pf'
            n_blank_prefix n_blank_suffix = Some (Inr (final, edit))" by simp_all
  from r ap obtain seeds filled ed ed'
    where seeds: "seed_all P wps' n_blank n_blank_prefix n_blank_suffix batch_size' seed_type = Inr seeds"
      and fl: "fill_loop fuel P sh seeds [seeds] = Some (Inr (filled, ed))"
      and rv: "revise n_revision P sh filled ed = Inr (final, ed')"
      and e: "edit = zip_star ed'"
    unfolding replace_mask_def Let_def sh_def
    by (auto split: sum.splits option.splits prod.splits)
  have k0: "\<forall>ss\<in>set [seeds]. list_all2 keeps_pair (sh_word_pairs sh) ss"
    using seed_all_keeps[OF seeds] by (simp add: shw)
  from fill_loop_keeps[OF fl k0] have k1: "list_all2 keeps_pair (sh_word_pairs sh) filled"
    and k2: "\<forall>ss\<in>set ed. list_all2 keeps_pair (sh_word_pairs sh) ss" by simp_all
  have ne: "ed \<noteq> []" using fill_loop_edit_nonempty[OF fl] by simp
  from revise_keeps[OF rv k1 k2] have k3: "list_all2 keeps_pair wps' final"
    and k4: "\<forall>ss\<in>set ed'. list_all2 keeps_pair wps' ss" by (simp_all add: shw)
  have ne': "ed' \<noteq> []" using revise_edit_nonempty[OF rv ne] .
  show "list_all2 keeps_pair wps' final" by (rule k3)
  show "list_all2 (\<lambda>wp hist. \<forall>s\<in>set hist. keeps_pair wp s) wps' edit"
    unfolding e by (rule zip_star_keeps[OF ne' k4])
qed

section \<open>No candidate survives the filter\<close>

lemma best_edit_empty_unfiltered:
  assumes "[] \<in> set filling"
  shows "best_edit P False filling = Inl IndexError"
proof -
  let ?g = "\<lambda>x::string list. case x of [] \<Rightarrow> Inl IndexError | y # _ \<Rightarrow> Inr y"
  have "?g [] = Inl IndexError" by simp
  have "\<exists>e. mapE ?g filling = Inl e"
    by (rule mapE_fails[where x="[]" and e=IndexError]) (use assms in simp_all)
  then obtain e where e: "mapE ?g filling = Inl e" ..
  have "\<exists>x\<in>set filling. ?g x = Inl e" using e by (rule mapE_Inl)
  then obtain x where "?g x = Inl e" ..
  then have "e = IndexError" by (cases x) simp_all
  with e show ?thesis by (simp add: best_edit_def)
qed

lemma best_edit_empty_filtered:
  assumes "[] \<in> set filling"
  shows "\<exists>e. best_edit P True filling = Inl e
           \<and> (e = ValueError \<or> (\<exists>sent\<in>set filling. sent \<noteq> [] \<and> get_perplexity P sent 4 = Inl e))"
proof -
  let ?g = "\<lambda>sent. case get_perplexity P sent 4 of Inl e \<Rightarrow> Inl e | Inr ppl \<Rightarrow> pick_min sent ppl"
  have g0: "?g [] = Inl ValueError" by (simp add: get_perplexity_Nil pick_min_def)
  have "\<exists>e. mapE ?g filling = Inl e"
    by (rule mapE_fails[where x="[]" and e=ValueError]) (use assms g0 in simp_all)
  then obtain e where e: "mapE ?g filling = Inl e" ..
  have "\<exists>x\<in>set filling. ?g x = Inl e" using e by (rule mapE_Inl)
  then obtain x where x: "x \<in> set filling" "?g x = Inl e" ..
  have "e = ValueError \<or> (x \<noteq> [] \<and> get_perplexity P x 4 = Inl e)"
  proof (cases "x = []")
    case True
    from x(2) have "?g [] = Inl e" unfolding True .
    with g0 have "Inl ValueError = (Inl e :: error + string)" by (rule trans[OF sym])
    then show ?thesis by simp
  next
    case False
    show ?thesis
    proof (cases "get_perplexity P x 4")
      case (Inl e')
      with x(2) False show ?thesis by simp
    next
      case (Inr ppl)
      then have "length ppl = length x" by (rule length_get_perplexity)
      with False have "\<exists>y. pick_min x ppl = Inr y" by (intro pick_min_nonempty) auto
      with x(2) Inr show ?thesis by auto
    qed
  qed
  with e x(1) show ?thesis by (auto simp: best_edit_def)
qed

text \<open>
  C9. When the candidate list of some sentence is empty, \<^verbatim>\<open>replace_single_mask\<close>
  raises and returns nothing: without the perplexity filter it indexes element 0 of the
  empty list (\<open>IndexError\<close>); with the filter \<^verbatim>\<open>get_perplexity\<close> of the empty list
  is the empty list and \<^verbatim>\<open>min\<close> of it raises \<open>ValueError\<close>, unless the perplexity
  of an earlier sentence's candidates has raised before.
\<close>

theorem empty_candidates_raise:
  assumes "greedy_filling P seed_sentences word_pairs batch_size topk n = Inr filling"
    and "[] \<in> set filling"
  shows "(\<exists>e. replace_single_mask P seed_sentences word_pairs batch_size topk n pf = Inl e)
    \<and> replace_single_mask P seed_sentences word_pairs batch_size topk n False = Inl IndexError
    \<and> get_perplexity P [] 4 = Inr [] \<and> pick_min ([] :: string list) [] = Inl ValueError
    \<and> (\<exists>e. replace_single_mask P seed_sentences word_pairs batch_size topk n True = Inl e
           \<and> (e = ValueError
                \<or> (\<exists>sent\<in>set filling. sent \<noteq> [] \<and> get_perplexity P sent 4 = Inl e)))"
proof -
  have u: "replace_single_mask P seed_sentences word_pairs batch_size topk n False = Inl IndexError"
    using assms by (simp add: replace_single_mask_def best_edit_empty_unfiltered)
  have f: "\<exists>e. replace_single_mask P seed_sentences word_pairs batch_size topk n True = Inl e
           \<and> (e = ValueError
                \<or> (\<exists>sent\<in>set filling. sent \<noteq> [] \<and> get_perplexity P sent 4 = Inl e))"
    using assms(1) best_edit_empty_filtered[OF assms(2), of P]
    by (simp add: replace_single_mask_def)
  have a: "\<exists>e. replace_single_mask P seed_sentences word_pairs batch_size topk n pf = Inl e"
    using u f by (cases pf) auto
  show ?thesis using u f a by (simp add: get_perplexity_Nil pick_min_def)
qed

section \<open>Batching does not change the results\<close>

lemma mapE_append:
  "mapE f (xs @ ys) =
     (case mapE f xs of Inl e \<Rightarrow> Inl e
      | Inr a \<Rightarrow> (case mapE f ys of Inl e \<Rightarrow> Inl e | Inr b \<Rightarrow> Inr (a @ b)))"
  by (induction xs) (auto split: sum.splits)

lemma mapE_length: "mapE f xs = Inr ys \<Longrightarrow> length ys = length xs"
  by (auto simp: mapE_Inr_iff dest: list_all2_lengthD)

lemma concat_batches: "0 < n \<Longrightarrow> concat (batches n xs) = xs"
proof (induction n xs rule: batches.induct)
  case (1 n xs)
  show ?case
  proof (cases "xs = []")
    case True
    then show ?thesis by simp
  next
    case False
    with 1 have "concat (batches n (drop n xs)) = drop n xs" by simp
    with False 1(2) show ?thesis by (simp add: batches_step)
  qed
qed

lemma mapE_batches:
  "0 < n \<Longrightarrow> mapE (mapE f) (batches n xs) =
     (case mapE f xs of Inl e \<Rightarrow> Inl e | Inr ys \<Rightarrow> Inr (batches n ys))"
proof (induction n xs rule: batches.induct)
  case (1 n xs)
  show ?case
  proof (cases "xs = []")
    case True
    then show ?thesis by simp
  next
    case False
    with 1 have IH: "mapE (mapE f) (batches n (drop n xs)) =
        (case mapE f (drop n xs) of Inl e \<Rightarrow> Inl e | Inr ys \<Rightarrow> Inr (batches n ys))" by simp
    have b: "batches n xs = take n xs # batches n (drop n xs)"
      using False 1(2) by (simp add: batches_step)
    have split: "mapE f xs = (case mapE f (take n xs) of Inl e \<Rightarrow> Inl e
      | Inr a \<Rightarrow> (case mapE f (drop n xs) of Inl e \<Rightarrow> Inl e | Inr b \<Rightarrow> Inr (a @ b)))"
      using mapE_append[of f "take n xs" "drop n xs"] by simp
    show ?thesis
    proof (cases "mapE f (take n xs)")
      case (Inl e)
      then show ?thesis by (simp add: b split)
    next
      case a: (Inr a)
      then have la: "length a = length (take n xs)" by (rule mapE_length)
      have "take n xs \<noteq> []" using False 1(2) by (cases xs; cases n) simp_all
      then have ane: "a \<noteq> []" using la by (metis length_0_conv)
      show ?thesis
      proof (cases "mapE f (drop n xs)")
        case (Inl e)
        then show ?thesis by (simp add: b split a IH)
      next
        case r: (Inr r)
        then have lr: "length r = length (drop n xs)" by (rule mapE_length)
        have tadr: "take n (a @ r) = a \<and> drop n (a @ r) = r"
        proof (cases "n \<le> length xs")
          case True
          with la have "length a = n" by simp
          then show ?thesis by simp
        next
          case False
          with lr have "r = []" by simp
          moreover from False la have "length a \<le> n" by simp
          ultimately show ?thesis by simp
        qed
        then have ta: "take n (a @ r) = a" and dr: "drop n (a @ r) = r" by simp_all
        have "a @ r \<noteq> []" using ane by simp
        with 1(2) have "batches n (a @ r) = take n (a @ r) # batches n (drop n (a @ r))"
          by (rule batches_step)
        then have "batches n (a @ r) = a # batches n r"
          unfolding ta dr .
        then show ?thesis by (simp add: b split a r IH)
      qed
    qed
  qed
qed

lemma get_perplexity_unbatched:
  "0 < batch_size \<Longrightarrow>
   get_perplexity P sentences batch_size =
     (case mapE (\<lambda>x. encode_plus P x True) sentences of
        Inl e \<Rightarrow> Inl e
      | Inr data \<Rightarrow>
          (case mapE (nll_item P) (concat data) of
             Inl e \<Rightarrow> Inl e
           | Inr nll \<Rightarrow> mapE (partition_perplexity nll) (get_partition data)))"
  by (simp add: get_perplexity_def Let_def data_loader_def mapE_batches concat_batches
      split: sum.splits)

lemma greedy_filling_unbatched:
  assumes "0 < batch_size" "length seed_sentences = length word_pairs"
  shows "greedy_filling P seed_sentences word_pairs batch_size topk n =
     (case mapE (\<lambda>x. encode_plus P x (\<not> contains (mask P) x)) seed_sentences of
        Inl e \<Rightarrow> Inl e
      | Inr data \<Rightarrow>
          (case mapE (infer_item P n) (concat data) of
             Inl e \<Rightarrow> Inl e
           | Inr totals \<Rightarrow>
               mapE (process_single_sentence P word_pairs (get_partition data) totals topk n)
                 [0..<length word_pairs]))"
proof (cases "mapE (\<lambda>x. encode_plus P x (\<not> contains (mask P) x)) seed_sentences")
  case (Inl e)
  then show ?thesis using assms by (simp add: greedy_filling_def)
next
  case (Inr data)
  then have "length data = length word_pairs" using assms(2) by (simp add: mapE_length)
  then show ?thesis
    using assms Inr
    by (simp add: greedy_filling_def Let_def data_loader_def mapE_batches concat_batches
        length_get_partition split: sum.splits)
qed

section \<open>Perplexity\<close>

lemma sum_position_loss_pad:
  "sum_list (map position_loss (zip scores (replicate n PAD_TOKEN_LABEL_ID))) = 0"
proof (induction scores arbitrary: n)
  case Nil
  then show ?case by simp
next
  case (Cons x xs)
  then show ?case by (cases n) (simp_all add: position_loss_def)
qed

lemma sum_position_loss_single:
  "q < length scores \<Longrightarrow> q < n \<Longrightarrow> v \<noteq> PAD_TOKEN_LABEL_ID \<Longrightarrow>
   sum_list (map position_loss (zip scores ((replicate n PAD_TOKEN_LABEL_ID)[q := v])))
     = position_loss (scores ! q, v)"
proof (induction scores arbitrary: q n)
  case Nil
  then show ?case by simp
next
  case (Cons x xs)
  from Cons.prems(2) obtain m where n: "n = Suc m" by (cases n) simp_all
  show ?case
  proof (cases q)
    case 0
    then show ?thesis by (simp add: n sum_position_loss_pad)
  next
    case (Suc q')
    with Cons.prems n have "q' < length xs" "q' < m" by simp_all
    from Cons.IH[OF this Cons.prems(3)] show ?thesis
      by (simp add: n Suc position_loss_def)
  qed
qed

lemma count_labels_single:
  "q < n \<Longrightarrow> v \<noteq> PAD_TOKEN_LABEL_ID \<Longrightarrow>
   length (filter (\<lambda>y. y \<noteq> PAD_TOKEN_LABEL_ID) ((replicate n PAD_TOKEN_LABEL_ID)[q := v])) = 1"
proof (induction n arbitrary: q)
  case 0
  then show ?case by simp
next
  case (Suc n)
  show ?case
  proof (cases q)
    case 0
    with Suc.prems show ?thesis by simp
  next
    case (Suc q')
    with Suc.prems have "q' < n" by simp
    from Suc.IH[OF this Suc.prems(2)] show ?thesis by (simp add: Suc)
  qed
qed

lemma int_ne_pad: "int i \<noteq> PAD_TOKEN_LABEL_ID"
  by (simp add: PAD_TOKEN_LABEL_ID_def)

lemma encode_with_single_mask_id_cases:
  assumes "\<not> is_causal P"
  shows "encode_with_single_mask_id P (tokenize (tokenizer P) s) p =
     (if convert_tokens_to_ids (tokenizer P) (tokenize (tokenizer P) s ! p) = mask_token_id (tokenizer P)
      then Inr None
      else if \<not> length (input_ids (variant P s p)) < max_length P then Inl AssertionError
      else if \<not> p + length (sp_token_prefix P) < length (input_ids (variant P s p)) then Inl IndexError
      else Inr (Some (variant P s p)))"
  using assms
  by (simp add: encode_with_single_mask_id_def variant_def Let_def input_ids_to_labels_def)

lemma nll_item_variant:
  assumes "p + length (sp_token_prefix P) < length (input_ids (variant P s p))"
  shows "nll_item P (variant P s p) =
     (if length (forward P (input_ids (variant P s p)) (attention_mask (variant P s p)))
          \<noteq> length (input_ids (variant P s p))
      then Inl ValueError else Inr (variant_loss P s p))"
proof -
  let ?T = "tokenizer P"
  let ?enc = "tok_encode_plus ?T (convert_tokens_to_string ?T ((tokenize ?T s)[p := mask_token ?T])) (max_length P)"
  let ?q = "p + length (sp_token_prefix P)"
  let ?v = "int (convert_tokens_to_ids ?T (tokenize ?T s ! p))"
  let ?sc = "forward P (input_ids ?enc) (attention_mask ?enc)"
  have ii: "input_ids (variant P s p) = input_ids ?enc" "attention_mask (variant P s p) = attention_mask ?enc"
    and lab: "labels (variant P s p) = Some ((replicate (length (input_ids ?enc)) PAD_TOKEN_LABEL_ID)[?q := ?v])"
    by (simp_all add: variant_def Let_def)
  from assms have q: "?q < length (input_ids ?enc)" by (simp add: ii)
  show ?thesis
  proof (cases "length ?sc = length (input_ids ?enc)")
    case False
    then show ?thesis by (simp add: nll_item_def ii lab Let_def)
  next
    case True
    with q have qs: "?q < length ?sc" by simp
    have s: "sum_list (map position_loss (zip ?sc ((replicate (length (input_ids ?enc)) PAD_TOKEN_LABEL_ID)[?q := ?v])))
        = position_loss (?sc ! ?q, ?v)"
      by (rule sum_position_loss_single[OF qs q int_ne_pad])
    have c: "length (filter (\<lambda>y. y \<noteq> PAD_TOKEN_LABEL_ID)
        ((replicate (length (input_ids ?enc)) PAD_TOKEN_LABEL_ID)[?q := ?v])) = 1"
      by (rule count_labels_single[OF q int_ne_pad])
    have "position_loss (?sc ! ?q, ?v) = variant_loss P s p"
      by (simp add: position_loss_def int_ne_pad variant_loss_def Let_def)
    with True s c show ?thesis
      by (simp add: nll_item_def ii lab Let_def)
  qed
qed

lemma encode_with_single_mask_id_list:
  assumes "\<not> is_causal P"
  shows "mapE (encode_with_single_mask_id P (tokenize (tokenizer P) s)) ps = Inr xs \<Longrightarrow>
     List.map_filter id xs
       = map (variant P s)
           (filter (\<lambda>p. convert_tokens_to_ids (tokenizer P) (tokenize (tokenizer P) s ! p)
                          \<noteq> mask_token_id (tokenizer P)) ps)
     \<and> (\<forall>p\<in>set (filter (\<lambda>p. convert_tokens_to_ids (tokenizer P) (tokenize (tokenizer P) s ! p)
                          \<noteq> mask_token_id (tokenizer P)) ps).
           p + length (sp_token_prefix P) < length (input_ids (variant P s p))
           \<and> length (input_ids (variant P s p)) < max_length P)"
proof (induction ps arbitrary: xs)
  case Nil
  then show ?case by (simp add: List.map_filter_simps)
next
  case (Cons p ps)
  from Cons.prems obtain y ys
    where y: "encode_with_single_mask_id P (tokenize (tokenizer P) s) p = Inr y"
      and ys: "mapE (encode_with_single_mask_id P (tokenize (tokenizer P) s)) ps = Inr ys"
      and xs: "xs = y # ys"
    by (auto split: sum.splits)
  note IH = Cons.IH[OF ys]
  show ?case
  proof (cases "convert_tokens_to_ids (tokenizer P) (tokenize (tokenizer P) s ! p)
                  = mask_token_id (tokenizer P)")
    case True
    with y have "y = None" by (simp add: encode_with_single_mask_id_cases[OF assms])
    with IH True show ?thesis by (simp add: xs List.map_filter_simps)
  next
    case False
    with y have "y = Some (variant P s p)
        \<and> p + length (sp_token_prefix P) < length (input_ids (variant P s p))
        \<and> length (input_ids (variant P s p)) < max_length P"
      by (simp add: encode_with_single_mask_id_cases[OF assms] split: if_splits)
    with IH False show ?thesis by (simp add: xs List.map_filter_simps)
  qed
qed

lemma encode_plus_variants:
  assumes "encode_plus P s True = Inr encs"
  shows "encs = map (variant P s) (variant_positions P s)
     \<and> (\<forall>p\<in>set (variant_positions P s).
           p + length (sp_token_prefix P) < length (input_ids (variant P s p))
           \<and> length (input_ids (variant P s p)) < max_length P)"
proof -
  from assms have nc: "\<not> is_causal P" by (auto simp: encode_plus_def split: if_splits)
  from assms nc obtain xs
    where xs: "mapE (encode_with_single_mask_id P (tokenize (tokenizer P) s))
                 [0..<min (max_length P - length (sp_token_prefix P)) (length (tokenize (tokenizer P) s))]
               = Inr xs"
      and e: "encs = List.map_filter id xs"
    by (auto simp: encode_plus_def Let_def split: sum.splits)
  from encode_with_single_mask_id_list[OF nc xs] show ?thesis
    unfolding e variant_positions_def Let_def by simp
qed

lemma mapE_nll_variants:
  assumes "\<forall>p\<in>set ps. p + length (sp_token_prefix P) < length (input_ids (variant P s p))"
    and "mapE (nll_item P) (map (variant P s) ps) = Inr ls"
  shows "ls = map (variant_loss P s) ps"
  using assms
proof (induction ps arbitrary: ls)
  case Nil
  then show ?case by simp
next
  case (Cons p ps)
  from Cons.prems(2) obtain y ys
    where y: "nll_item P (variant P s p) = Inr y"
      and ys: "mapE (nll_item P) (map (variant P s) ps) = Inr ys"
      and ls: "ls = y # ys"
    by (auto split: sum.splits)
  from Cons.prems(1) have b: "p + length (sp_token_prefix P) < length (input_ids (variant P s p))"
    and rest: "\<forall>p\<in>set ps. p + length (sp_token_prefix P) < length (input_ids (variant P s p))"
    by simp_all
  from y have "y = variant_loss P s p"
    by (simp add: nll_item_variant[OF b] split: if_splits)
  with Cons.IH[OF rest ys] show ?case by (simp add: ls)
qed

lemma perplexity_of_eq:
  assumes "perplexity_of P s = Inr p"
  shows "p = sentence_perplexity P s \<and> variant_positions P s \<noteq> []
     \<and> encode_plus P s True = Inr (map (variant P s) (variant_positions P s))"
proof -
  from assms obtain encs ls
    where encs: "encode_plus P s True = Inr encs"
      and ls: "mapE (nll_item P) encs = Inr ls"
      and ne: "ls \<noteq> []"
      and p: "p = exp (sum_list ls / real (length ls))"
    by (auto simp: perplexity_of_def split: sum.splits if_splits)
  from encode_plus_variants[OF encs] have e: "encs = map (variant P s) (variant_positions P s)"
    and b: "\<forall>p\<in>set (variant_positions P s).
              p + length (sp_token_prefix P) < length (input_ids (variant P s p))"
    by simp_all
  from mapE_nll_variants[OF b ls[unfolded e]]
  have l: "ls = map (variant_loss P s) (variant_positions P s)" .
  with ne have "variant_positions P s \<noteq> []" by simp
  moreover have "p = sentence_perplexity P s"
    unfolding p l sentence_perplexity_def by simp
  ultimately show ?thesis using encs e by simp
qed

lemma mapE_concat:
  "list_all2 (\<lambda>xs ys. mapE f xs = Inr ys) xss yss \<Longrightarrow> mapE f (concat xss) = Inr (concat yss)"
  by (induction xss yss rule: list_all2_induct) (simp_all add: mapE_append)

lemma mapE_concat_split:
  "mapE f (concat xss) = Inr ys \<Longrightarrow>
     \<exists>yss. list_all2 (\<lambda>xs ys. mapE f xs = Inr ys) xss yss \<and> ys = concat yss"
proof (induction xss arbitrary: ys)
  case Nil
  then show ?case by simp
next
  case (Cons xs xss)
  from Cons.prems obtain a b
    where a: "mapE f xs = Inr a" and b: "mapE f (concat xss) = Inr b" and ys: "ys = a @ b"
    by (auto simp: mapE_append split: sum.splits)
  from Cons.IH[OF b] obtain yss
    where "list_all2 (\<lambda>xs ys. mapE f xs = Inr ys) xss yss" "b = concat yss" by blast
  with a ys have "list_all2 (\<lambda>xs ys. mapE f xs = Inr ys) (xs # xss) (a # yss) \<and> ys = concat (a # yss)"
    by simp
  then show ?case by blast
qed

lemma get_partition_cong:
  "map length xs = map length ys \<Longrightarrow> get_partition xs = get_partition ys"
proof -
  assume a: "map length xs = map length ys"
  then have "length xs = length ys" by (metis length_map)
  with a show ?thesis by (simp add: get_partition_def Let_def)
qed

lemma get_partition_nth:
  assumes "i < length yss"
  shows "get_partition yss ! i
     = (length (concat (take i yss)), length (concat (take i yss)) + length (yss ! i))"
proof -
  have a: "sum_list (take i (map length yss)) = length (concat (take i yss))"
    by (simp add: length_concat take_map)
  have "take (Suc i) yss = take i yss @ [yss ! i]"
    using assms by (rule take_Suc_conv_app_nth)
  then have "sum_list (take (Suc i) (map length yss)) = length (concat (take i yss)) + length (yss ! i)"
    by (simp add: length_concat take_map)
  with a assms show ?thesis by (simp add: get_partition_def Let_def)
qed

lemma slice_concat_nth:
  assumes "i < length yss"
  shows "slice (concat yss) (length (concat (take i yss)))
           (length (concat (take i yss)) + length (yss ! i)) = yss ! i"
proof -
  have "yss = take i yss @ yss ! i # drop (Suc i) yss"
    using assms by (rule id_take_nth_drop)
  then have "concat yss = concat (take i yss) @ yss ! i @ concat (drop (Suc i) yss)"
    by (metis concat.simps(2) concat_append)
  then show ?thesis by (simp add: slice_def)
qed

lemma partition_perplexity_nth:
  assumes "i < length yss"
  shows "partition_perplexity (concat yss) (get_partition yss ! i)
     = (if yss ! i = [] then Inl ZeroDivisionError
        else Inr (exp (sum_list (yss ! i) / real (length (yss ! i)))))"
  by (simp add: get_partition_nth[OF assms] partition_perplexity_def slice_concat_nth[OF assms])

lemma get_perplexity_local:
  assumes "0 < batch_size"
  shows "get_perplexity P sentences batch_size = Inr ppl
     \<longleftrightarrow> list_all2 (\<lambda>s p. perplexity_of P s = Inr p) sentences ppl"
proof
  assume "get_perplexity P sentences batch_size = Inr ppl"
  then obtain data nll
    where data: "mapE (\<lambda>x. encode_plus P x True) sentences = Inr data"
      and nll: "mapE (nll_item P) (concat data) = Inr nll"
      and pp: "mapE (partition_perplexity nll) (get_partition data) = Inr ppl"
    by (auto simp: get_perplexity_unbatched[OF assms] split: sum.splits)
  from mapE_concat_split[OF nll] obtain yss
    where yss: "list_all2 (\<lambda>xs ys. mapE (nll_item P) xs = Inr ys) data yss"
      and c: "nll = concat yss" by blast
  have ld: "length data = length sentences" using data by (rule mapE_length)
  have ly: "length yss = length data" using yss by (simp add: list_all2_lengthD)
  have "map length data = map length yss"
  proof (rule nth_equalityI)
    show "length (map length data) = length (map length yss)" using ly by simp
  next
    fix i assume "i < length (map length data)"
    then have i: "i < length data" by simp
    with yss have "mapE (nll_item P) (data ! i) = Inr (yss ! i)"
      by (simp add: list_all2_conv_all_nth)
    then have "length (yss ! i) = length (data ! i)" by (rule mapE_length)
    with i ly show "map length data ! i = map length yss ! i" by simp
  qed
  then have gp: "get_partition data = get_partition yss" by (rule get_partition_cong)
  have lp: "length ppl = length sentences"
    using pp by (simp add: mapE_length length_get_partition ld)
  show "list_all2 (\<lambda>s p. perplexity_of P s = Inr p) sentences ppl"
  proof (rule list_all2_all_nthI)
    show "length sentences = length ppl" using lp by simp
  next
    fix i assume i: "i < length sentences"
    then have iy: "i < length yss" using ly ld by simp
    from data i have e: "encode_plus P (sentences ! i) True = Inr (data ! i)"
      by (simp add: mapE_Inr_iff list_all2_conv_all_nth)
    from yss i ld have n: "mapE (nll_item P) (data ! i) = Inr (yss ! i)"
      by (simp add: list_all2_conv_all_nth)
    from pp i have "partition_perplexity nll (get_partition data ! i) = Inr (ppl ! i)"
      by (simp add: mapE_Inr_iff list_all2_conv_all_nth length_get_partition ld)
    then have "(if yss ! i = [] then Inl ZeroDivisionError
        else Inr (exp (sum_list (yss ! i) / real (length (yss ! i))))) = Inr (ppl ! i)"
      unfolding c gp partition_perplexity_nth[OF iy] .
    then show "perplexity_of P (sentences ! i) = Inr (ppl ! i)"
      by (simp add: perplexity_of_def e n)
  qed
next
  assume a: "list_all2 (\<lambda>s p. perplexity_of P s = Inr p) sentences ppl"
  define enc where "enc = (\<lambda>s. projr (encode_plus P s True))"
  define nl where "nl = (\<lambda>d. projr (mapE (nll_item P) d))"
  have ok: "encode_plus P s True = Inr (enc s) \<and> mapE (nll_item P) (enc s) = Inr (nl (enc s))"
    if "s \<in> set sentences" for s
  proof -
    from a that obtain p where "perplexity_of P s = Inr p"
      by (auto simp: list_all2_conv_all_nth in_set_conv_nth)
    then show ?thesis
      by (auto simp: perplexity_of_def enc_def nl_def split: sum.splits)
  qed
  let ?data = "map enc sentences"
  let ?yss = "map nl ?data"
  have data: "mapE (\<lambda>x. encode_plus P x True) sentences = Inr ?data"
    by (rule mapE_map) (simp add: ok)
  have "list_all2 (\<lambda>xs ys. mapE (nll_item P) xs = Inr ys) ?data ?yss"
    by (simp add: list_all2_conv_all_nth ok)
  then have nll: "mapE (nll_item P) (concat ?data) = Inr (concat ?yss)" by (rule mapE_concat)
  have "length (nl (enc s)) = length (enc s)" if "s \<in> set sentences" for s
  proof -
    from ok[OF that] have "mapE (nll_item P) (enc s) = Inr (nl (enc s))" by simp
    then show ?thesis by (rule mapE_length)
  qed
  then have "map length ?data = map length ?yss" by simp
  then have gp: "get_partition ?data = get_partition ?yss" by (rule get_partition_cong)
  have lp: "length ppl = length sentences" using a by (simp add: list_all2_lengthD)
  have "list_all2 (\<lambda>pr p. partition_perplexity (concat ?yss) pr = Inr p) (get_partition ?yss) ppl"
  proof (rule list_all2_all_nthI)
    show "length (get_partition ?yss) = length ppl" by (simp add: length_get_partition lp)
  next
    fix i assume "i < length (get_partition ?yss)"
    then have i: "i < length sentences" by (simp add: length_get_partition)
    then have iy: "i < length ?yss" by simp
    from a i have "perplexity_of P (sentences ! i) = Inr (ppl ! i)"
      by (simp add: list_all2_conv_all_nth)
    moreover from i have "sentences ! i \<in> set sentences" by simp
    from ok[OF this] have "encode_plus P (sentences ! i) True = Inr (enc (sentences ! i))"
      and "mapE (nll_item P) (enc (sentences ! i)) = Inr (nl (enc (sentences ! i)))" by simp_all
    moreover have "?yss ! i = nl (enc (sentences ! i))" using i by simp
    ultimately
    have "(if ?yss ! i = [] then Inl ZeroDivisionError
        else Inr (exp (sum_list (?yss ! i) / real (length (?yss ! i))))) = Inr (ppl ! i)"
      by (simp add: perplexity_of_def split: if_splits)
    then show "partition_perplexity (concat ?yss) (get_partition ?yss ! i) = Inr (ppl ! i)"
      unfolding partition_perplexity_nth[OF iy] .
  qed
  then have "mapE (partition_perplexity (concat ?yss)) (get_partition ?data) = Inr ppl"
    by (simp add: mapE_Inr_iff gp)
  with data nll show "get_perplexity P sentences batch_size = Inr ppl"
    by (simp add: get_perplexity_unbatched[OF assms])
qed

lemma get_perplexity_batch_size:
  "get_perplexity P sentences batch_size = Inr ppl \<Longrightarrow> 0 < batch_size"
  by (cases "batch_size = 0") (auto simp: get_perplexity_def Let_def data_loader_def split: sum.splits)

lemma get_perplexity_eq:
  assumes "get_perplexity P sentences batch_size = Inr ppl"
  shows "ppl = map (sentence_perplexity P) sentences
     \<and> (\<forall>s\<in>set sentences. variant_positions P s \<noteq> []
           \<and> encode_plus P s True = Inr (map (variant P s) (variant_positions P s)))"
proof -
  have b: "0 < batch_size" using assms by (rule get_perplexity_batch_size)
  from assms have l: "list_all2 (\<lambda>s p. perplexity_of P s = Inr p) sentences ppl"
    by (simp add: get_perplexity_local[OF b])
  have "ppl = map (sentence_perplexity P) sentences"
  proof (rule nth_equalityI)
    show "length ppl = length (map (sentence_perplexity P) sentences)"
      using l by (simp add: list_all2_lengthD)
  next
    fix i assume "i < length ppl"
    then have i: "i < length sentences" using l by (simp add: list_all2_lengthD)
    with l have "perplexity_of P (sentences ! i) = Inr (ppl ! i)"
      by (simp add: list_all2_conv_all_nth)
    from perplexity_of_eq[OF this] i
    show "ppl ! i = map (sentence_perplexity P) sentences ! i" by simp
  qed
  moreover have "variant_positions P s \<noteq> []
           \<and> encode_plus P s True = Inr (map (variant P s) (variant_positions P s))"
    if "s \<in> set sentences" for s
  proof -
    from that l obtain p where "perplexity_of P s = Inr p"
      by (auto simp: list_all2_conv_all_nth in_set_conv_nth)
    from perplexity_of_eq[OF this] show ?thesis by simp
  qed
  ultimately show ?thesis by simp
qed








lemma nth_index_of: "x \<in> set xs \<Longrightarrow> xs ! index_of xs x = x"
  unfolding index_of_def by (induction xs) auto

lemma set_best_candidates:
  "set (best_candidates P h t)
     = {template P h t pre_n mid_n | pre_n mid_n. 1 \<le> mid_n \<and> pre_n + mid_n + 2 \<le> max_length P}"
proof -
  have "set (best_candidates P h t)
     = {template P h t pre_n mid_n | pre_n mid_n.
          pre_n < max_length P - 2 \<and> 1 \<le> mid_n \<and> mid_n < max_length P - 1 - pre_n}"
  proof (intro set_eqI iffI)
    fix c assume "c \<in> set (best_candidates P h t)"
    then obtain pre_n mid_n
      where "pre_n < max_length P - 2" "1 \<le> mid_n" "mid_n < max_length P - 1 - pre_n"
        and "c = join '' '' ((replicate pre_n (mask P) @ [h]) @ (replicate mid_n (mask P) @ [t]))"
      unfolding best_candidates_def Let_def by auto
    then have "c = template P h t pre_n mid_n \<and> pre_n < max_length P - 2 \<and> 1 \<le> mid_n
        \<and> mid_n < max_length P - 1 - pre_n"
      by (simp add: template_def)
    then show "c \<in> {template P h t pre_n mid_n | pre_n mid_n.
          pre_n < max_length P - 2 \<and> 1 \<le> mid_n \<and> mid_n < max_length P - 1 - pre_n}"
      by blast
  next
    fix c assume "c \<in> {template P h t pre_n mid_n | pre_n mid_n.
          pre_n < max_length P - 2 \<and> 1 \<le> mid_n \<and> mid_n < max_length P - 1 - pre_n}"
    then obtain pre_n mid_n
      where b: "pre_n < max_length P - 2" "1 \<le> mid_n" "mid_n < max_length P - 1 - pre_n"
        and c: "c = template P h t pre_n mid_n" by blast
    let ?f = "\<lambda>pre_n mid_n. join '' '' ((replicate pre_n (mask P) @ [h]) @ (replicate mid_n (mask P) @ [t]))"
    have ceq: "c = ?f pre_n mid_n" by (simp add: c template_def)
    have "mid_n \<in> set [1..<max_length P - 1 - pre_n]" using b(2,3) by simp
    with ceq have "c \<in> ?f pre_n ` set [1..<max_length P - 1 - pre_n]" by (rule image_eqI)
    then have m: "c \<in> set (map (?f pre_n) [1..<max_length P - 1 - pre_n])" by simp
    have p: "pre_n \<in> set [0..<max_length P - 2]" using b(1) by simp
    have "c \<in> set (concat (map (\<lambda>pre_n. map (?f pre_n) [1..<max_length P - 1 - pre_n])
                                  [0..<max_length P - 2]))"
      unfolding set_concat set_map using m p by blast
    then show "c \<in> set (best_candidates P h t)"
      by (simp add: best_candidates_def Let_def)
  qed
  also have "\<dots> = {template P h t pre_n mid_n | pre_n mid_n. 1 \<le> mid_n \<and> pre_n + mid_n + 2 \<le> max_length P}"
  proof -
    have "(pre_n < max_length P - 2 \<and> 1 \<le> mid_n \<and> mid_n < max_length P - 1 - pre_n)
        \<longleftrightarrow> (1 \<le> mid_n \<and> pre_n + mid_n + 2 \<le> max_length P)" for pre_n mid_n
      by arith
    then show ?thesis by simp
  qed
  finally show ?thesis .
qed

lemma best_candidates_nonempty: "best_candidates P h t \<noteq> [] \<longleftrightarrow> 3 \<le> max_length P"
proof
  assume "best_candidates P h t \<noteq> []"
  then obtain c where "c \<in> set (best_candidates P h t)" by (cases "best_candidates P h t") auto
  then obtain pre_n mid_n where "1 \<le> mid_n" "pre_n + mid_n + 2 \<le> max_length P"
    unfolding set_best_candidates by blast
  then show "3 \<le> max_length P" by simp
next
  assume "3 \<le> max_length P"
  then have "template P h t 0 1 \<in> set (best_candidates P h t)"
    unfolding set_best_candidates by (intro CollectI exI[of _ 0] exI[of _ 1]) simp
  then show "best_candidates P h t \<noteq> []" by auto
qed

lemma pair_to_seed_best_returns:
  assumes "get_perplexity P (best_candidates P h t) batch_size = Inr ppl"
    and "3 \<le> max_length P"
  shows "\<exists>s. pair_to_seed P [h, t] n_blank n_blank_prefix n_blank_suffix batch_size ''best'' = Inr s"
proof -
  from assms(1) have l: "length ppl = length (best_candidates P h t)"
    by (rule length_get_perplexity)
  from assms(2) have "best_candidates P h t \<noteq> []" by (simp add: best_candidates_nonempty)
  with l have "ppl \<noteq> []" by auto
  then have "\<exists>x. pick_min (best_candidates P h t) ppl = Inr x" using l by (rule pick_min_nonempty)
  then show ?thesis by (simp add: pair_to_seed_def assms(1))
qed

lemma pair_to_seed_best_minimal:
  assumes "pair_to_seed P [h, t] n_blank n_blank_prefix n_blank_suffix batch_size ''best'' = Inr s"
  shows "get_perplexity P (best_candidates P h t) batch_size
         = Inr (map (sentence_perplexity P) (best_candidates P h t))
     \<and> s \<in> set (best_candidates P h t)
     \<and> (\<forall>c\<in>set (best_candidates P h t). sentence_perplexity P s \<le> sentence_perplexity P c)"
proof -
  let ?cs = "best_candidates P h t"
  from assms obtain ppl
    where g: "get_perplexity P ?cs batch_size = Inr ppl"
      and pm: "pick_min ?cs ppl = Inr s"
    by (auto simp: pair_to_seed_def Let_def split: sum.splits)
  from get_perplexity_eq[OF g] have ppl: "ppl = map (sentence_perplexity P) ?cs" by simp
  from pm have ne: "ppl \<noteq> []" and s: "s = ?cs ! index_of ppl (min_list ppl)"
    and il: "index_of ppl (min_list ppl) < length ?cs"
    by (auto simp: pick_min_def Let_def split: if_splits)
  have mn: "min_list ppl = Min (set ppl)" using ne by (rule min_list_Min)
  then have "min_list ppl \<in> set ppl" using ne by simp
  then have idx: "ppl ! index_of ppl (min_list ppl) = min_list ppl" by (rule nth_index_of)
  have "sentence_perplexity P s = map (sentence_perplexity P) ?cs ! index_of ppl (min_list ppl)"
    unfolding s using il by simp
  then have sp: "sentence_perplexity P s = min_list ppl" using idx ppl by simp
  have "\<forall>c\<in>set ?cs. sentence_perplexity P s \<le> sentence_perplexity P c"
  proof
    fix c assume "c \<in> set ?cs"
    then have "sentence_perplexity P c \<in> set ppl" unfolding ppl by simp
    then have "Min (set ppl) \<le> sentence_perplexity P c" by simp
    then show "sentence_perplexity P s \<le> sentence_perplexity P c" using sp mn by simp
  qed
  moreover have "s \<in> set ?cs" unfolding s using il by simp
  ultimately show ?thesis using g ppl by simp
qed


section \<open>The seed types\<close>

lemma pair_to_seed_best_error:
  "pair_to_seed P [h, t] n_blank n_blank_prefix n_blank_suffix batch_size ''best'' = Inl e
     \<longleftrightarrow> get_perplexity P (best_candidates P h t) batch_size = Inl e
          \<or> (e = ValueError \<and> get_perplexity P (best_candidates P h t) batch_size = Inr [])"
proof (cases "get_perplexity P (best_candidates P h t) batch_size")
  case (Inl e')
  then show ?thesis by (simp add: pair_to_seed_def)
next
  case (Inr ppl)
  show ?thesis
  proof (cases "ppl = []")
    case True
    with Inr show ?thesis by (auto simp: pair_to_seed_def pick_min_def)
  next
    case False
    from Inr have "length ppl = length (best_candidates P h t)" by (rule length_get_perplexity)
    with False have "\<exists>x. pick_min (best_candidates P h t) ppl = Inr x" by (rule pick_min_nonempty)
    with Inr False show ?thesis by (auto simp: pair_to_seed_def)
  qed
qed

text \<open>
  C8, as the code has it. A seed type other than \<open>middle\<close>, \<open>whole\<close> and \<open>best\<close> raises
  \<open>ValueError\<close>; \<open>middle\<close> and \<open>whole\<close> return a string; \<open>best\<close> returns a string
  exactly when the maximum length admits a candidate (it is at least 3) and
  \<^verbatim>\<open>get_perplexity\<close> succeeds on the candidates. Otherwise \<open>best\<close> raises: the error
  of \<^verbatim>\<open>get_perplexity\<close>, or \<open>ValueError\<close> from the minimum of the empty list when
  there is no candidate.
\<close>

theorem pair_to_seed_seed_type:
  "(seed_type \<notin> {''middle'', ''whole'', ''best''} \<longrightarrow>
      pair_to_seed P [h, t] n_blank n_blank_prefix n_blank_suffix batch_size seed_type = Inl ValueError)
   \<and> (seed_type \<in> {''middle'', ''whole''} \<longrightarrow>
        (\<exists>s. pair_to_seed P [h, t] n_blank n_blank_prefix n_blank_suffix batch_size seed_type = Inr s))
   \<and> ((\<exists>s. pair_to_seed P [h, t] n_blank n_blank_prefix n_blank_suffix batch_size ''best'' = Inr s)
        \<longleftrightarrow> 3 \<le> max_length P
             \<and> (\<exists>ppl. get_perplexity P (best_candidates P h t) batch_size = Inr ppl))
   \<and> (\<forall>e. pair_to_seed P [h, t] n_blank n_blank_prefix n_blank_suffix batch_size ''best'' = Inl e
        \<longleftrightarrow> get_perplexity P (best_candidates P h t) batch_size = Inl e
             \<or> (e = ValueError \<and> max_length P < 3
                  \<and> get_perplexity P (best_candidates P h t) batch_size = Inr []))"
proof (intro conjI allI)
  show "seed_type \<notin> {''middle'', ''whole'', ''best''} \<longrightarrow>
      pair_to_seed P [h, t] n_blank n_blank_prefix n_blank_suffix batch_size seed_type = Inl ValueError"
    by (simp add: pair_to_seed_def)
  show "seed_type \<in> {''middle'', ''whole''} \<longrightarrow>
        (\<exists>s. pair_to_seed P [h, t] n_blank n_blank_prefix n_blank_suffix batch_size seed_type = Inr s)"
    by (auto simp: pair_to_seed_def)
  show "(\<exists>s. pair_to_seed P [h, t] n_blank n_blank_prefix n_blank_suffix batch_size ''best'' = Inr s)
        \<longleftrightarrow> 3 \<le> max_length P
             \<and> (\<exists>ppl. get_perplexity P (best_candidates P h t) batch_size = Inr ppl)"
  proof
    assume "\<exists>s. pair_to_seed P [h, t] n_blank n_blank_prefix n_blank_suffix batch_size ''best'' = Inr s"
    then obtain s
      where s: "pair_to_seed P [h, t] n_blank n_blank_prefix n_blank_suffix batch_size ''best'' = Inr s" ..
    from pair_to_seed_best_minimal[OF s]
    have g: "get_perplexity P (best_candidates P h t) batch_size
         = Inr (map (sentence_perplexity P) (best_candidates P h t))"
      and m: "s \<in> set (best_candidates P h t)" by simp_all
    from m have "best_candidates P h t \<noteq> []" by auto
    then have "3 \<le> max_length P" by (simp add: best_candidates_nonempty)
    with g show "3 \<le> max_length P
             \<and> (\<exists>ppl. get_perplexity P (best_candidates P h t) batch_size = Inr ppl)" by blast
  next
    assume "3 \<le> max_length P
             \<and> (\<exists>ppl. get_perplexity P (best_candidates P h t) batch_size = Inr ppl)"
    then obtain ppl where "get_perplexity P (best_candidates P h t) batch_size = Inr ppl"
      and "3 \<le> max_length P" by blast
    then show "\<exists>s. pair_to_seed P [h, t] n_blank n_blank_prefix n_blank_suffix batch_size ''best'' = Inr s"
      by (rule pair_to_seed_best_returns)
  qed
next
  fix e
  have "get_perplexity P (best_candidates P h t) batch_size = Inr [] \<Longrightarrow> max_length P < 3"
  proof -
    assume "get_perplexity P (best_candidates P h t) batch_size = Inr []"
    then have "length ([] :: real list) = length (best_candidates P h t)"
      by (rule length_get_perplexity)
    then have "\<not> best_candidates P h t \<noteq> []" by simp
    then show "max_length P < 3" unfolding best_candidates_nonempty by simp
  qed
  then show "pair_to_seed P [h, t] n_blank n_blank_prefix n_blank_suffix batch_size ''best'' = Inl e
        \<longleftrightarrow> get_perplexity P (best_candidates P h t) batch_size = Inl e
             \<or> (e = ValueError \<and> max_length P < 3
                  \<and> get_perplexity P (best_candidates P h t) batch_size = Inr [])"
    unfolding pair_to_seed_best_error by blast
qed

section \<open>The fill loop under a tokenizer that pads\<close>

lemma map_filter_all_None: "\<forall>x\<in>set xs. x = None \<Longrightarrow> List.map_filter id xs = []"
  by (induction xs) (simp_all add: List.map_filter_simps)

lemma encode_with_single_mask_id_padded:
  assumes "\<forall>s. length (input_ids (tok_encode_plus (tokenizer P) s (max_length P))) = max_length P"
  shows "encode_with_single_mask_id P token_list mask_position = Inr None
       \<or> encode_with_single_mask_id P token_list mask_position = Inl AssertionError"
  using assms by (simp add: encode_with_single_mask_id_def Let_def)

lemma encode_plus_padded_masked:
  assumes "\<forall>s. length (input_ids (tok_encode_plus (tokenizer P) s (max_length P))) = max_length P"
  shows "\<exists>e. encode_plus P s False = Inl e"
  using assms by (simp add: encode_plus_def Let_def)

lemma encode_plus_padded_Inr:
  assumes pad: "\<forall>s. length (input_ids (tok_encode_plus (tokenizer P) s (max_length P))) = max_length P"
    and r: "encode_plus P s b = Inr encs"
  shows "encs = []"
proof -
  from r pad have b: "b" "\<not> is_causal P"
    by (auto simp: encode_plus_def Let_def split: if_splits)
  let ?toks = "tokenize (tokenizer P) s"
  let ?ps = "[0..<min (max_length P - length (sp_token_prefix P)) (length ?toks)]"
  from r b obtain xs
    where xs: "mapE (encode_with_single_mask_id P ?toks) ?ps = Inr xs"
      and e: "encs = List.map_filter id xs"
    by (auto simp: encode_plus_def Let_def split: sum.splits)
  from xs have l: "list_all2 (\<lambda>p x. encode_with_single_mask_id P ?toks p = Inr x) ?ps xs"
    by (simp only: mapE_Inr_iff)
  have "\<forall>x\<in>set xs. x = None"
  proof
    fix x assume "x \<in> set xs"
    then obtain i where i: "i < length xs" "x = xs ! i" by (auto simp: in_set_conv_nth)
    from l i(1) have "encode_with_single_mask_id P ?toks (?ps ! i) = Inr (xs ! i)"
      by (rule list_all2_nthD2)
    then have "encode_with_single_mask_id P ?toks (?ps ! i) = Inr x" unfolding i(2) .
    with encode_with_single_mask_id_padded[OF pad, of ?toks "?ps ! i"] show "x = None" by simp
  qed
  then show "encs = []" unfolding e by (rule map_filter_all_None)
qed

lemma encode_plus_padded_Inl:
  assumes pad: "\<forall>s. length (input_ids (tok_encode_plus (tokenizer P) s (max_length P))) = max_length P"
    and nc: "\<not> is_causal P"
    and r: "encode_plus P s b = Inl e"
  shows "e = AssertionError"
proof (cases b)
  case False
  with r nc show ?thesis by (auto simp: encode_plus_def Let_def split: if_splits)
next
  case True
  let ?toks = "tokenize (tokenizer P) s"
  let ?ps = "[0..<min (max_length P - length (sp_token_prefix P)) (length ?toks)]"
  from r nc True have "mapE (encode_with_single_mask_id P ?toks) ?ps = Inl e"
    by (auto simp: encode_plus_def Let_def split: sum.splits)
  then have "\<exists>p\<in>set ?ps. encode_with_single_mask_id P ?toks p = Inl e" by (rule mapE_Inl)
  then obtain p where "encode_with_single_mask_id P ?toks p = Inl e" ..
  with encode_with_single_mask_id_padded[OF pad, of ?toks p] show ?thesis by simp
qed

lemma greedy_filling_padded:
  assumes pad: "\<forall>s. length (input_ids (tok_encode_plus (tokenizer P) s (max_length P))) = max_length P"
    and ne: "seed_sentences \<noteq> []"
    and g: "greedy_filling P seed_sentences word_pairs batch_size topk n = Inr filling"
  shows "[] \<in> set filling"
proof -
  from g have bs: "0 < batch_size" and len: "length seed_sentences = length word_pairs"
    by (auto simp: greedy_filling_def Let_def data_loader_def split: if_splits sum.splits)
  note u = g[unfolded greedy_filling_unbatched[OF bs len]]
  from u obtain data
    where data: "mapE (\<lambda>x. encode_plus P x (\<not> contains (mask P) x)) seed_sentences = Inr data"
    by (auto split: sum.splits)
  from data have ld: "length data = length seed_sentences" by (rule mapE_length)
  from data have l: "list_all2 (\<lambda>x d. encode_plus P x (\<not> contains (mask P) x) = Inr d)
      seed_sentences data" by (simp only: mapE_Inr_iff)
  have em: "\<forall>d\<in>set data. d = []"
  proof
    fix d assume "d \<in> set data"
    then obtain i where i: "i < length data" "d = data ! i" by (auto simp: in_set_conv_nth)
    with l have "encode_plus P (seed_sentences ! i) (\<not> contains (mask P) (seed_sentences ! i)) = Inr d"
      by (simp add: list_all2_conv_all_nth)
    with pad show "d = []" by (rule encode_plus_padded_Inr)
  qed
  then have c: "concat data = []" by simp
  from u data c
  have f: "mapE (process_single_sentence P word_pairs (get_partition data) [] topk n)
             [0..<length word_pairs] = Inr filling"
    by simp
  from ne len ld have z: "0 < length word_pairs" "0 < length data" by auto
  from f have lf: "length filling = length [0..<length word_pairs]" by (rule mapE_length)
  from f have "list_all2 (\<lambda>i r. process_single_sentence P word_pairs (get_partition data) [] topk n i
      = Inr r) [0..<length word_pairs] filling" by (simp only: mapE_Inr_iff)
  then have "process_single_sentence P word_pairs (get_partition data) [] topk n
      ([0..<length word_pairs] ! 0) = Inr (filling ! 0)"
    by (rule list_all2_nthD) (use z(1) in simp)
  with z(1) have p0: "process_single_sentence P word_pairs (get_partition data) [] topk n 0
      = Inr (filling ! 0)"
    by simp
  from em z(2) have "data ! 0 = []" by simp
  with get_partition_nth[OF z(2)] have gp: "get_partition data ! 0 = (0, 0)" by simp
  from p0 have "filling ! 0 = []"
    by (auto simp: process_single_sentence_def gp Let_def split: list.splits)
  moreover from lf z(1) have "0 < length filling" by simp
  ultimately show ?thesis by (metis nth_mem)
qed

lemma replace_single_mask_padded:
  assumes pad: "\<forall>s. length (input_ids (tok_encode_plus (tokenizer P) s (max_length P))) = max_length P"
    and ne: "seed_sentences \<noteq> []"
  shows "\<exists>e. replace_single_mask P seed_sentences word_pairs batch_size topk n pf = Inl e"
proof (cases "greedy_filling P seed_sentences word_pairs batch_size topk n")
  case (Inl e)
  then show ?thesis by (simp add: replace_single_mask_def)
next
  case (Inr filling)
  with pad ne have m: "[] \<in> set filling" by (rule greedy_filling_padded)
  show ?thesis
  proof (cases pf)
    case True
    from best_edit_empty_filtered[OF m, of P] obtain e where "best_edit P True filling = Inl e"
      by blast
    with Inr True show ?thesis by (simp add: replace_single_mask_def)
  next
    case False
    with Inr best_edit_empty_unfiltered[OF m, of P] show ?thesis
      by (simp add: replace_single_mask_def)
  qed
qed

lemma replace_single_mask_padded_assertion:
  assumes pad: "\<forall>s. length (input_ids (tok_encode_plus (tokenizer P) s (max_length P))) = max_length P"
    and nc: "\<not> is_causal P"
    and len: "length seed_sentences = length word_pairs"
    and m: "\<exists>s\<in>set seed_sentences. contains (mask P) s"
  shows "replace_single_mask P seed_sentences word_pairs batch_size topk n pf = Inl AssertionError"
proof -
  let ?f = "\<lambda>x. encode_plus P x (\<not> contains (mask P) x)"
  from m obtain s where s: "s \<in> set seed_sentences" "contains (mask P) s" ..
  from encode_plus_padded_masked[OF pad, of s] obtain e0 where "encode_plus P s False = Inl e0" ..
  with s(2) have "?f s = Inl e0" by simp
  with s(1) have "\<exists>e. mapE ?f seed_sentences = Inl e" by (rule mapE_fails)
  then obtain e where e: "mapE ?f seed_sentences = Inl e" ..
  then have "\<exists>x\<in>set seed_sentences. ?f x = Inl e" by (rule mapE_Inl)
  then obtain x where "?f x = Inl e" ..
  with pad nc have "e = AssertionError" by (rule encode_plus_padded_Inl)
  with e len show ?thesis by (simp add: replace_single_mask_def greedy_filling_def)
qed

lemma get_perplexity_padded:
  assumes pad: "\<forall>s. length (input_ids (tok_encode_plus (tokenizer P) s (max_length P))) = max_length P"
    and nc: "\<not> is_causal P"
    and c: "c \<in> set sentences" "encode_plus P c True = Inl e0"
  shows "get_perplexity P sentences batch_size = Inl AssertionError"
proof -
  let ?f = "\<lambda>x. encode_plus P x True"
  from c have "\<exists>e. mapE ?f sentences = Inl e" by (rule mapE_fails)
  then obtain e where e: "mapE ?f sentences = Inl e" ..
  then have "\<exists>x\<in>set sentences. ?f x = Inl e" by (rule mapE_Inl)
  then obtain x where "?f x = Inl e" ..
  with pad nc have "e = AssertionError" by (rule encode_plus_padded_Inl)
  with e show ?thesis by (simp add: get_perplexity_def)
qed

text \<open>
  C1. \<^verbatim>\<open>encode_plus\<close> asks the tokenizer for \<^verbatim>\<open>padding='max_length'\<close> and then
  asserts \<^verbatim>\<open>len(input_ids) < max_length\<close>. With a tokenizer that pads as asked, every
  encoding has exactly \<open>max_length\<close> ids and the assertion fails. So \<^verbatim>\<open>replace_mask\<close>
  never fills a mask: whatever the word pairs, the network and the other arguments, it
  raises; when the seeds could be built, the first call of \<^verbatim>\<open>replace_single_mask\<close>
  raises, and it raises the assertion as soon as a seed holds a mask. The fill loop does
  not end with no mask left, and no revision pass runs.
\<close>

theorem replace_mask_padding_raises:
  assumes pad: "\<forall>s. length (input_ids (tok_encode_plus (tokenizer P) s (max_length P))) = max_length P"
  shows "(\<exists>e. replace_mask (Suc fuel) P arg n_blank n_revision topk n seed_type batch_size pf
                n_blank_prefix n_blank_suffix = Some (Inl e))
     \<and> (\<forall>wps seeds. as_pairs arg = Inr wps
            \<and> seed_all P wps n_blank n_blank_prefix n_blank_suffix batch_size seed_type = Inr seeds \<longrightarrow>
          (\<exists>e. replace_single_mask P seeds wps batch_size topk n pf = Inl e)
          \<and> (\<not> is_causal P \<and> (\<exists>s\<in>set seeds. contains (mask P) s) \<longrightarrow>
               replace_single_mask P seeds wps batch_size topk n pf = Inl AssertionError
               \<and> replace_mask (Suc fuel) P arg n_blank n_revision topk n seed_type batch_size pf
                   n_blank_prefix n_blank_suffix = Some (Inl AssertionError)))"
proof -
  let ?rm = "replace_mask (Suc fuel) P arg n_blank n_revision topk n seed_type batch_size pf
                n_blank_prefix n_blank_suffix"
  have run: "?rm = Some (Inl e)"
    if ap: "as_pairs arg = Inr wps"
      and sa: "seed_all P wps n_blank n_blank_prefix n_blank_suffix batch_size seed_type = Inr seeds"
      and st: "replace_single_mask P seeds wps batch_size topk n pf = Inl e" for wps seeds e
    using ap sa st by (simp add: replace_mask_def step_def)
  have first: "\<exists>e. replace_single_mask P seeds wps batch_size topk n pf = Inl e"
    if ap: "as_pairs arg = Inr wps"
      and sa: "seed_all P wps n_blank n_blank_prefix n_blank_suffix batch_size seed_type = Inr seeds"
    for wps seeds
  proof -
    from ap have "wps \<noteq> []" by (auto simp: as_pairs_def split: word_pairs_arg.splits if_splits)
    moreover from sa have "length seeds = length wps" unfolding seed_all_def by (rule mapE_length)
    ultimately have "seeds \<noteq> []" by auto
    with pad show ?thesis by (rule replace_single_mask_padded)
  qed
  have a: "\<exists>e. ?rm = Some (Inl e)"
  proof (cases "as_pairs arg")
    case (Inl e)
    then show ?thesis by (simp add: replace_mask_def)
  next
    case ap: (Inr wps)
    show ?thesis
    proof (cases "seed_all P wps n_blank n_blank_prefix n_blank_suffix batch_size seed_type")
      case (Inl e)
      with ap show ?thesis by (simp add: replace_mask_def)
    next
      case sa: (Inr seeds)
      from first[OF ap sa] obtain e
        where "replace_single_mask P seeds wps batch_size topk n pf = Inl e" ..
      from run[OF ap sa this] show ?thesis ..
    qed
  qed
  have b: "(\<exists>e. replace_single_mask P seeds wps batch_size topk n pf = Inl e)
          \<and> (\<not> is_causal P \<and> (\<exists>s\<in>set seeds. contains (mask P) s) \<longrightarrow>
               replace_single_mask P seeds wps batch_size topk n pf = Inl AssertionError
               \<and> ?rm = Some (Inl AssertionError))"
    if h: "as_pairs arg = Inr wps
            \<and> seed_all P wps n_blank n_blank_prefix n_blank_suffix batch_size seed_type = Inr seeds"
    for wps seeds
  proof (intro conjI impI)
    from h have ap: "as_pairs arg = Inr wps"
      and sa: "seed_all P wps n_blank n_blank_prefix n_blank_suffix batch_size seed_type = Inr seeds"
      by simp_all
    show "\<exists>e. replace_single_mask P seeds wps batch_size topk n pf = Inl e"
      using ap sa by (rule first)
    assume c: "\<not> is_causal P \<and> (\<exists>s\<in>set seeds. contains (mask P) s)"
    from sa have len: "length seeds = length wps" unfolding seed_all_def by (rule mapE_length)
    show r: "replace_single_mask P seeds wps batch_size topk n pf = Inl AssertionError"
      by (rule replace_single_mask_padded_assertion[OF pad _ len]) (use c in simp_all)
    from run[OF ap sa r] show "?rm = Some (Inl AssertionError)" .
  qed
  from a b show ?thesis by blast
qed

section \<open>Example runs\<close>

lemma mapE_nth_upt: "mapE (\<lambda>i. f (xs ! i)) [0..<length xs] = mapE f xs"
proof -
  have "mapE f (map ((!) xs) [0..<length xs]) = mapE (\<lambda>i. f (xs ! i)) [0..<length xs]"
    by (rule mapE_map_list)
  then show ?thesis by (simp add: map_nth)
qed

lemma get_partition_single: "get_partition [xs] = [(0, length xs)]"
  by (simp add: get_partition_def Let_def)

lemma greedy_filling_single:
  assumes "0 < batch_size"
    and "encode_plus P s (\<not> contains (mask P) s) = Inr encs"
    and "mapE (infer_item P n) encs = Inr totals"
    and "mapE (item_candidates P h t n) totals = Inr found"
  shows "greedy_filling P [s] [[h, t]] batch_size topk n
     = Inr [take (min topk (length (sort_key (\<lambda>x. - snd x) (concat found))))
              (map fst (sort_key (\<lambda>x. - snd x) (concat found)))]"
proof -
  have l: "length totals = length encs" using assms(3) by (rule mapE_length)
  have "mapE (\<lambda>i. item_candidates P h t n (totals ! i)) [0..<length encs] = Inr found"
    using assms(4) unfolding l[symmetric] mapE_nth_upt .
  then have "process_single_sentence P [[h, t]] (get_partition [encs]) totals topk n 0
     = Inr (take (min topk (length (sort_key (\<lambda>x. - snd x) (concat found))))
              (map fst (sort_key (\<lambda>x. - snd x) (concat found))))"
    by (simp add: process_single_sentence_def get_partition_single Let_def)
  then show ?thesis
    using assms(2,3) by (simp add: greedy_filling_unbatched[OF assms(1)])
qed

lemma step_single:
  assumes "0 < batch_size"
    and "encode_plus P s (\<not> contains (mask P) s) = Inr encs"
    and "mapE (infer_item P n) encs = Inr totals"
    and "mapE (item_candidates P h t n) totals = Inr found"
    and "take (min topk (length (sort_key (\<lambda>x. - snd x) (concat found))))
              (map fst (sort_key (\<lambda>x. - snd x) (concat found))) = c # cs"
  shows "step P \<lparr> sh_word_pairs = [[h, t]], sh_topk = topk, sh_topk_per_position = n,
                  sh_batch_size = batch_size, sh_perplexity_filter = False \<rparr> [s] = Inr [c]"
  using greedy_filling_single[OF assms(1-4), of topk] assms(5)
  by (simp add: step_def replace_single_mask_def best_edit_def)

lemma infer_item_net_prefers:
  assumes "forward P = net_prefers w"
    and "topk_scores k (map (\<lambda>i. if i = w then 1 else 0) [0..<length vocab]) = Inr (vs, is')"
  shows "mapE (infer_item P k) encs
     = Inr (map (\<lambda>enc. (input_ids enc, map (\<lambda>_. vs) (input_ids enc), map (\<lambda>_. is') (input_ids enc))) encs)"
proof (rule mapE_map)
  fix enc :: encoding
  have "mapE (topk_scores k) (net_prefers w (input_ids enc) (attention_mask enc))
      = Inr (map (\<lambda>_. (vs, is')) (input_ids enc))"
    unfolding net_prefers_def mapE_map_list by (rule mapE_map) (simp add: assms(2))
  then show "infer_item P k enc
      = Inr (input_ids enc, map (\<lambda>_. vs) (input_ids enc), map (\<lambda>_. is') (input_ids enc))"
    by (simp add: infer_item_def assms(1) comp_def)
qed

lemma topk_is: "topk_scores 1 (map (\<lambda>i. if i = 7 then 1 else 0) [0..<length vocab]) = Inr ([1], [7])"
  by code_simp

lemma forward_word: "forward (word_prompter m) = net_prefers 7"
  by (simp add: word_prompter_def net_is_def)

lemmas infer_word = infer_item_net_prefers[OF forward_word topk_is]

lemma e1_enc: "encode_plus (word_prompter 8) ''dog <mask> <mask> pet''
     (\<not> contains (mask (word_prompter 8)) ''dog <mask> <mask> pet'')
   = Inr [\<lparr>input_ids = [0, 5, 4, 4, 6, 2], attention_mask = [1, 1, 1, 1, 1, 1], labels = None\<rparr>]"
  by code_simp

lemma e1_inf: "mapE (infer_item (word_prompter 8) 1)
     [\<lparr>input_ids = [0, 5, 4, 4, 6, 2], attention_mask = [1, 1, 1, 1, 1, 1], labels = None\<rparr>]
   = Inr [([0, 5, 4, 4, 6, 2], [[1], [1], [1], [1], [1], [1]], [[7], [7], [7], [7], [7], [7]])]"
  unfolding infer_word by simp

lemma e1_cand: "mapE (item_candidates (word_prompter 8) ''dog'' ''pet'' 1)
     [([0, 5, 4, 4, 6, 2], [[1], [1], [1], [1], [1], [1]], [[7], [7], [7], [7], [7], [7]])]
   = Inr [[(''dog is <mask> pet '', 1), (''dog <mask> is pet '', 1)]]"
  by code_simp

lemma e1_pick: "take (min 1 (length (sort_key (\<lambda>x. - snd x)
       (concat [[(''dog is <mask> pet '', 1::real), (''dog <mask> is pet '', 1)]]))))
     (map fst (sort_key (\<lambda>x. - snd x) (concat [[(''dog is <mask> pet '', 1::real), (''dog <mask> is pet '', 1)]])))
   = [''dog is <mask> pet '']"
  by simp

lemma e1: "step (word_prompter 8) (example_shared False) [''dog <mask> <mask> pet'']
   = Inr [''dog is <mask> pet '']"
  unfolding example_shared_def
  by (rule step_single[OF _ e1_enc e1_inf e1_cand e1_pick]) simp

lemma e2_enc: "encode_plus (word_prompter 8) ''dog is <mask> pet ''
     (\<not> contains (mask (word_prompter 8)) ''dog is <mask> pet '')
   = Inr [\<lparr>input_ids = [0, 5, 7, 4, 6, 2], attention_mask = [1, 1, 1, 1, 1, 1], labels = None\<rparr>]"
  by code_simp

lemma e2_inf: "mapE (infer_item (word_prompter 8) 1)
     [\<lparr>input_ids = [0, 5, 7, 4, 6, 2], attention_mask = [1, 1, 1, 1, 1, 1], labels = None\<rparr>]
   = Inr [([0, 5, 7, 4, 6, 2], [[1], [1], [1], [1], [1], [1]], [[7], [7], [7], [7], [7], [7]])]"
  unfolding infer_word by simp

lemma e2_cand: "mapE (item_candidates (word_prompter 8) ''dog'' ''pet'' 1)
     [([0, 5, 7, 4, 6, 2], [[1], [1], [1], [1], [1], [1]], [[7], [7], [7], [7], [7], [7]])]
   = Inr [[(''dog is is pet '', 1)]]"
  by code_simp

lemma e2_pick: "take (min 1 (length (sort_key (\<lambda>x. - snd x) (concat [[(''dog is is pet '', 1::real)]]))))
     (map fst (sort_key (\<lambda>x. - snd x) (concat [[(''dog is is pet '', 1::real)]])))
   = [''dog is is pet '']"
  by simp

lemma e2: "step (word_prompter 8) (example_shared False) [''dog is <mask> pet '']
   = Inr [''dog is is pet '']"
  unfolding example_shared_def
  by (rule step_single[OF _ e2_enc e2_inf e2_cand e2_pick]) simp

lemma e3_enc: "encode_plus (word_prompter 8) ''dog is is pet ''
     (\<not> contains (mask (word_prompter 8)) ''dog is is pet '')
   = Inr [\<lparr>input_ids = [0, 4, 7, 7, 6, 2], attention_mask = [1, 1, 1, 1, 1, 1],
            labels = Some [- 100, 5, - 100, - 100, - 100, - 100]\<rparr>,
          \<lparr>input_ids = [0, 5, 4, 7, 6, 2], attention_mask = [1, 1, 1, 1, 1, 1],
            labels = Some [- 100, - 100, 7, - 100, - 100, - 100]\<rparr>,
          \<lparr>input_ids = [0, 5, 7, 4, 6, 2], attention_mask = [1, 1, 1, 1, 1, 1],
            labels = Some [- 100, - 100, - 100, 7, - 100, - 100]\<rparr>,
          \<lparr>input_ids = [0, 5, 7, 7, 4, 2], attention_mask = [1, 1, 1, 1, 1, 1],
            labels = Some [- 100, - 100, - 100, - 100, 6, - 100]\<rparr>]"
  by code_simp

lemma e3_inf: "mapE (infer_item (word_prompter 8) 1)
     [\<lparr>input_ids = [0, 4, 7, 7, 6, 2], attention_mask = [1, 1, 1, 1, 1, 1],
            labels = Some [- 100, 5, - 100, - 100, - 100, - 100]\<rparr>,
          \<lparr>input_ids = [0, 5, 4, 7, 6, 2], attention_mask = [1, 1, 1, 1, 1, 1],
            labels = Some [- 100, - 100, 7, - 100, - 100, - 100]\<rparr>,
          \<lparr>input_ids = [0, 5, 7, 4, 6, 2], attention_mask = [1, 1, 1, 1, 1, 1],
            labels = Some [- 100, - 100, - 100, 7, - 100, - 100]\<rparr>,
          \<lparr>input_ids = [0, 5, 7, 7, 4, 2], attention_mask = [1, 1, 1, 1, 1, 1],
            labels = Some [- 100, - 100, - 100, - 100, 6, - 100]\<rparr>]
   = Inr [([0, 4, 7, 7, 6, 2], [[1], [1], [1], [1], [1], [1]], [[7], [7], [7], [7], [7], [7]]),
          ([0, 5, 4, 7, 6, 2], [[1], [1], [1], [1], [1], [1]], [[7], [7], [7], [7], [7], [7]]),
          ([0, 5, 7, 4, 6, 2], [[1], [1], [1], [1], [1], [1]], [[7], [7], [7], [7], [7], [7]]),
          ([0, 5, 7, 7, 4, 2], [[1], [1], [1], [1], [1], [1]], [[7], [7], [7], [7], [7], [7]])]"
  unfolding infer_word by simp

lemma e3_cand: "mapE (item_candidates (word_prompter 8) ''dog'' ''pet'' 1)
     [([0, 4, 7, 7, 6, 2], [[1], [1], [1], [1], [1], [1]], [[7], [7], [7], [7], [7], [7]]),
      ([0, 5, 4, 7, 6, 2], [[1], [1], [1], [1], [1], [1]], [[7], [7], [7], [7], [7], [7]]),
      ([0, 5, 7, 4, 6, 2], [[1], [1], [1], [1], [1], [1]], [[7], [7], [7], [7], [7], [7]]),
      ([0, 5, 7, 7, 4, 2], [[1], [1], [1], [1], [1], [1]], [[7], [7], [7], [7], [7], [7]])]
   = Inr [[], [(''dog is is pet '', 1)], [(''dog is is pet '', 1)], []]"
  by code_simp

lemma e3_pick: "take (min 1 (length (sort_key (\<lambda>x. - snd x)
       (concat [[], [(''dog is is pet '', 1::real)], [(''dog is is pet '', 1)], []]))))
     (map fst (sort_key (\<lambda>x. - snd x)
       (concat [[], [(''dog is is pet '', 1::real)], [(''dog is is pet '', 1)], []])))
   = [''dog is is pet '']"
  by simp

lemma e3: "step (word_prompter 8) (example_shared False) [''dog is is pet '']
   = Inr [''dog is is pet '']"
  unfolding example_shared_def
  by (rule step_single[OF _ e3_enc e3_inf e3_cand e3_pick]) simp

lemma c9_enc: "encode_plus (word_prompter 8) ''dog <mask> cat''
     (\<not> contains (mask (word_prompter 8)) ''dog <mask> cat'')
   = Inr [\<lparr>input_ids = [0, 5, 4, 3, 2], attention_mask = [1, 1, 1, 1, 1], labels = None\<rparr>]"
  by code_simp

lemma c9_inf: "mapE (infer_item (word_prompter 8) 1)
     [\<lparr>input_ids = [0, 5, 4, 3, 2], attention_mask = [1, 1, 1, 1, 1], labels = None\<rparr>]
   = Inr [([0, 5, 4, 3, 2], [[1], [1], [1], [1], [1]], [[7], [7], [7], [7], [7]])]"
  unfolding infer_word by simp

lemma c9_cand: "mapE (item_candidates (word_prompter 8) ''dog'' ''cat'' 1)
     [([0, 5, 4, 3, 2], [[1], [1], [1], [1], [1]], [[7], [7], [7], [7], [7]])]
   = Inr [[]]"
  by code_simp

lemma c9_filling:
  "greedy_filling (word_prompter 8) [''dog <mask> cat''] [[''dog'', ''cat'']] 4 1 1 = Inr [[]]"
  using greedy_filling_single[OF _ c9_enc c9_inf c9_cand, of 4 1] by simp

lemma has_mask_filled_once: "\<not> no_mask (word_prompter 8) [''dog is <mask> pet '']"
  by code_simp

lemma no_mask_filled_twice: "no_mask (word_prompter 8) [''dog is is pet '']"
  by code_simp

lemma seed_probe:
  "seed_all P [[''dog'', ''pet'']] 2 2 2 4 ''middle''
     = Inr [join '' '' [''dog'', mask P, mask P, ''pet'']]"
  by (simp add: seed_all_def pair_to_seed_def numeral_2_eq_2)

lemma join_probe: "join '' '' [''dog'', ''<mask>'', ''<mask>'', ''pet''] = ''dog <mask> <mask> pet''"
  by simp

lemma mask_word: "mask (word_prompter m) = ''<mask>''"
  by (simp add: word_prompter_def word_tokenizer_def)

lemma seed_word:
  "seed_all (word_prompter 8) [[''dog'', ''pet'']] 2 2 2 4 ''middle'' = Inr [''dog <mask> <mask> pet'']"
  unfolding seed_probe mask_word join_probe ..

lemma shared_probe:
  "\<lparr> sh_word_pairs = [[''dog'', ''pet'']], sh_topk = 1, sh_topk_per_position = 1,
      sh_batch_size = 4, sh_perplexity_filter = False \<rparr> = example_shared False"
  by (simp add: example_shared_def)

lemma fill_word:
  "fill_loop 2 (word_prompter 8) (example_shared False) [''dog <mask> <mask> pet''] edit
     = Some (Inr ([''dog is is pet ''], edit @ [[''dog is <mask> pet '']]))"
  using has_mask_filled_once no_mask_filled_twice by (simp add: numeral_2_eq_2 e1 e2)

lemma revise_word:
  "revise 1 (word_prompter 8) (example_shared False) [''dog is is pet ''] edit
     = Inr ([''dog is is pet ''], edit @ [[''dog is is pet '']])"
  by (simp add: e3)

lemma zip_probe:
  "zip_star [[''dog <mask> <mask> pet''], [''dog is <mask> pet ''], [''dog is is pet '']]
     = [[''dog <mask> <mask> pet'', ''dog is <mask> pet '', ''dog is is pet '']]"
  by code_simp

lemma as_pairs_probe: "as_pairs (Many [[''dog'', ''pet'']]) = Inr [[''dog'', ''pet'']]"
  by (simp add: as_pairs_def)

lemma replace_mask_word:
  "replace_mask 2 (word_prompter 8) (Many [[''dog'', ''pet'']]) 2 1 1 1 ''middle'' 4 False 2 2
     = Some (Inr ([''dog is is pet ''],
                  [[''dog <mask> <mask> pet'', ''dog is <mask> pet '', ''dog is is pet '']]))"
  by (simp only: replace_mask_def as_pairs_probe sum.case seed_word Let_def shared_probe fill_word
      option.case prod.case revise_word append.simps zip_probe)

section \<open>The theorems at the example runs\<close>

lemma replace_single_mask_word:
  "replace_single_mask (word_prompter 8) [''dog <mask> <mask> pet''] [[''dog'', ''pet'']] 4 1 1 False
     = Inr [''dog is <mask> pet '']"
  using e1 by (simp add: step_def example_shared_def)

lemma decode_topk_word:
  "decode_topk (word_prompter 8) ''dog'' ''pet'' [0, 5, 4, 4, 6, 2] 0 2 [7] [1]
     = Some (''dog is <mask> pet '', 1)"
  by code_simp

theorem head_tail_preserved_witness:
  "replace_single_mask (word_prompter 8) [''dog <mask> <mask> pet''] [[''dog'', ''pet'']] 4 1 1 False
     = Inr [''dog is <mask> pet '']
   \<and> list_all2 keeps_pair [[''dog'', ''pet'']] [''dog is <mask> pet '']
   \<and> decode_topk (word_prompter 8) ''dog'' ''pet'' [0, 5, 4, 4, 6, 2] 0 2 [7] [1]
       = Some (''dog is <mask> pet '', 1)
   \<and> contains ''dog'' ''dog is <mask> pet '' \<and> contains ''pet'' ''dog is <mask> pet ''
   \<and> as_pairs (Many [[''dog'', ''pet'']]) = Inr [[''dog'', ''pet'']]
   \<and> replace_mask 2 (word_prompter 8) (Many [[''dog'', ''pet'']]) 2 1 1 1 ''middle'' 4 False 2 2
       = Some (Inr ([''dog is is pet ''],
                    [[''dog <mask> <mask> pet'', ''dog is <mask> pet '', ''dog is is pet '']]))
   \<and> list_all2 keeps_pair [[''dog'', ''pet'']] [''dog is is pet '']
   \<and> list_all2 (\<lambda>wp hist. \<forall>s\<in>set hist. keeps_pair wp s) [[''dog'', ''pet'']]
         [[''dog <mask> <mask> pet'', ''dog is <mask> pet '', ''dog is is pet '']]"
  using head_tail_preserved[where P="word_prompter 8" and seed_sentences="[''dog <mask> <mask> pet'']"
      and wps="[[''dog'', ''pet'']]" and batch_size=4 and topk=1 and n=1 and pf=False
      and out="[''dog is <mask> pet '']" and head="''dog''" and tail="''pet''"
      and inp="[0, 5, 4, 4, 6, 2]" and k=0 and replace_pos=2 and ind="[7]" and likelihood="[1]"
      and d="''dog is <mask> pet ''" and l=1 and arg="Many [[''dog'', ''pet'']]"
      and wps'="[[''dog'', ''pet'']]" and fuel=2 and n_blank=2 and n_revision=1 and topk'=1
      and n'=1 and seed_type="''middle''" and batch_size'=4 and pf'=False and n_blank_prefix=2
      and n_blank_suffix=2 and final="[''dog is is pet '']"
      and edit="[[''dog <mask> <mask> pet'', ''dog is <mask> pet '', ''dog is is pet '']]"]
    replace_single_mask_word decode_topk_word as_pairs_probe replace_mask_word
  by (simp only: simp_thms)

theorem empty_candidates_raise_witness:
  "greedy_filling (word_prompter 8) [''dog <mask> cat''] [[''dog'', ''cat'']] 4 1 1 = Inr [[]]
   \<and> [] \<in> set [[] :: string list]
   \<and> replace_single_mask (word_prompter 8) [''dog <mask> cat''] [[''dog'', ''cat'']] 4 1 1 False
       = Inl IndexError
   \<and> replace_single_mask (word_prompter 8) [''dog <mask> cat''] [[''dog'', ''cat'']] 4 1 1 True
       = Inl ValueError"
  using empty_candidates_raise[OF c9_filling, of True] c9_filling by auto












lemma forward_short: "forward short_prompter = net_prefers 7"
  by (simp add: short_prompter_def word_prompter_def net_is_def)

lemma max_length_short: "max_length short_prompter = 4"
  by (simp add: short_prompter_def word_prompter_def)

lemma best_candidates_short:
  "best_candidates short_prompter ''dog'' ''pet''
     = [''dog <mask> pet'', ''dog <mask> <mask> pet'', ''<mask> dog <mask> pet'']"
  by code_simp

lemma k1_enc: "encode_plus short_prompter ''dog <mask> pet'' True
   = Inr [\<lparr>input_ids = [4, 4], attention_mask = [1, 1], labels = Some [5, - 100]\<rparr>]"
  by code_simp

lemma k2_enc: "encode_plus short_prompter ''dog <mask> <mask> pet'' True
   = Inr [\<lparr>input_ids = [4, 4], attention_mask = [1, 1], labels = Some [5, - 100]\<rparr>]"
  by code_simp

lemma k3_enc: "encode_plus short_prompter ''<mask> dog <mask> pet'' True
   = Inr [\<lparr>input_ids = [4, 4], attention_mask = [1, 1], labels = Some [- 100, 5]\<rparr>]"
  by code_simp

lemma k_nll_head:
  "nll_item short_prompter \<lparr>input_ids = [4, 4], attention_mask = am, labels = Some [5, - 100]\<rparr>
     = Inr (cross_entropy (map (\<lambda>i. if i = 7 then 1 else 0) [0..<length vocab]) 5)"
  by (simp add: nll_item_def forward_short net_prefers_def position_loss_def
      PAD_TOKEN_LABEL_ID_def)

lemma k_nll_second:
  "nll_item short_prompter \<lparr>input_ids = [4, 4], attention_mask = am, labels = Some [- 100, 5]\<rparr>
     = Inr (cross_entropy (map (\<lambda>i. if i = 7 then 1 else 0) [0..<length vocab]) 5)"
  by (simp add: nll_item_def forward_short net_prefers_def position_loss_def
      PAD_TOKEN_LABEL_ID_def)

lemma k1: "perplexity_of short_prompter ''dog <mask> pet''
     = Inr (exp (cross_entropy (map (\<lambda>i. if i = 7 then 1 else 0) [0..<length vocab]) 5))"
  by (simp add: perplexity_of_def k1_enc k_nll_head)

lemma k2: "perplexity_of short_prompter ''dog <mask> <mask> pet''
     = Inr (exp (cross_entropy (map (\<lambda>i. if i = 7 then 1 else 0) [0..<length vocab]) 5))"
  by (simp add: perplexity_of_def k2_enc k_nll_head)

lemma k3: "perplexity_of short_prompter ''<mask> dog <mask> pet''
     = Inr (exp (cross_entropy (map (\<lambda>i. if i = 7 then 1 else 0) [0..<length vocab]) 5))"
  by (simp add: perplexity_of_def k3_enc k_nll_second)

lemma get_perplexity_short:
  "get_perplexity short_prompter (best_candidates short_prompter ''dog'' ''pet'') 4
      = Inr [exp (cross_entropy (map (\<lambda>i. if i = 7 then 1 else 0) [0..<length vocab]) 5),
             exp (cross_entropy (map (\<lambda>i. if i = 7 then 1 else 0) [0..<length vocab]) 5),
             exp (cross_entropy (map (\<lambda>i. if i = 7 then 1 else 0) [0..<length vocab]) 5)]"
  unfolding best_candidates_short using k1 k2 k3 by (simp add: get_perplexity_local)




lemma max_length_word: "max_length (word_prompter m) = m"
  by (simp add: word_prompter_def)

lemma best_candidates_none: "best_candidates (word_prompter 2) h t = []"
  by (simp add: best_candidates_def max_length_word)

theorem pair_to_seed_seed_type_witness:
  "''other'' \<notin> {''middle'', ''whole'', ''best''}
   \<and> pair_to_seed (word_prompter 8) [''dog'', ''pet''] 3 2 2 4 ''other'' = Inl ValueError
   \<and> ''whole'' \<in> {''middle'', ''whole''}
   \<and> (\<exists>s. pair_to_seed (word_prompter 8) [''dog'', ''pet''] 3 2 2 4 ''whole'' = Inr s)
   \<and> 3 \<le> max_length short_prompter
   \<and> (\<exists>ppl. get_perplexity short_prompter (best_candidates short_prompter ''dog'' ''pet'') 4 = Inr ppl)
   \<and> (\<exists>s. pair_to_seed short_prompter [''dog'', ''pet''] 3 2 2 4 ''best'' = Inr s)
   \<and> max_length (word_prompter 2) < 3
   \<and> get_perplexity (word_prompter 2) (best_candidates (word_prompter 2) ''dog'' ''pet'') 4 = Inr []
   \<and> (\<exists>e. pair_to_seed (word_prompter 2) [''dog'', ''pet''] 3 2 2 4 ''best'' = Inl e)"
proof -
  have m: "3 \<le> max_length short_prompter" by (simp add: max_length_short)
  from get_perplexity_short
  have e: "\<exists>ppl. get_perplexity short_prompter (best_candidates short_prompter ''dog'' ''pet'') 4 = Inr ppl" ..
  have n: "max_length (word_prompter 2) < 3" by (simp add: max_length_word)
  have g: "get_perplexity (word_prompter 2) (best_candidates (word_prompter 2) ''dog'' ''pet'') 4 = Inr []"
    by (simp add: best_candidates_none get_perplexity_Nil)
  from pair_to_seed_seed_type[of "''other''" "word_prompter 8" "''dog''" "''pet''" 3 2 2 4]
  have a: "''other'' \<notin> {''middle'', ''whole'', ''best''}
      \<and> pair_to_seed (word_prompter 8) [''dog'', ''pet''] 3 2 2 4 ''other'' = Inl ValueError"
    by simp
  from pair_to_seed_seed_type[of "''whole''" "word_prompter 8" "''dog''" "''pet''" 3 2 2 4]
  have b: "''whole'' \<in> {''middle'', ''whole''}
      \<and> (\<exists>s. pair_to_seed (word_prompter 8) [''dog'', ''pet''] 3 2 2 4 ''whole'' = Inr s)"
    by simp
  from pair_to_seed_seed_type[of "''best''" short_prompter "''dog''" "''pet''" 3 2 2 4] m e
  have c: "\<exists>s. pair_to_seed short_prompter [''dog'', ''pet''] 3 2 2 4 ''best'' = Inr s"
    by blast
  from pair_to_seed_seed_type[of "''best''" "word_prompter 2" "''dog''" "''pet''" 3 2 2 4] n g
  have d: "\<exists>e. pair_to_seed (word_prompter 2) [''dog'', ''pet''] 3 2 2 4 ''best'' = Inl e"
    by blast
  from a b m e c n g d show ?thesis by (intro conjI) simp_all
qed

lemma padding_pads:
  "\<forall>s. length (input_ids (tok_encode_plus (tokenizer padding_prompter) s (max_length padding_prompter)))
        = max_length padding_prompter"
  by (simp add: padding_prompter_def padding_tokenizer_def pad_to_def word_prompter_def min_def)

lemma mask_padding: "mask padding_prompter = ''<mask>''"
  by (simp add: padding_prompter_def padding_tokenizer_def word_prompter_def word_tokenizer_def)

lemma seed_padding:
  "seed_all padding_prompter [[''dog'', ''pet'']] 2 2 2 4 ''middle'' = Inr [''dog <mask> <mask> pet'']"
  unfolding seed_probe mask_padding join_probe ..

lemma not_causal_padding: "\<not> is_causal padding_prompter"
  by (simp add: padding_prompter_def word_prompter_def)

lemma seed_has_mask: "contains ''<mask>'' ''dog <mask> <mask> pet''"
  by code_simp

theorem replace_mask_padding_raises_witness:
  "(\<forall>s. length (input_ids (tok_encode_plus (tokenizer padding_prompter) s (max_length padding_prompter)))
        = max_length padding_prompter)
   \<and> as_pairs (Many [[''dog'', ''pet'']]) = Inr [[''dog'', ''pet'']]
   \<and> seed_all padding_prompter [[''dog'', ''pet'']] 2 2 2 4 ''middle'' = Inr [''dog <mask> <mask> pet'']
   \<and> \<not> is_causal padding_prompter
   \<and> contains (mask padding_prompter) ''dog <mask> <mask> pet''
   \<and> replace_single_mask padding_prompter [''dog <mask> <mask> pet''] [[''dog'', ''pet'']] 4 1 1 False
       = Inl AssertionError
   \<and> replace_mask 1 padding_prompter (Many [[''dog'', ''pet'']]) 2 1 1 1 ''middle'' 4 False 2 2
       = Some (Inl AssertionError)
   \<and> replace_mask 1000 padding_prompter (Many [[''dog'', ''pet'']]) 2 1 1 1 ''middle'' 4 False 2 2
       = Some (Inl AssertionError)"
proof -
  have c: "contains (mask padding_prompter) ''dog <mask> <mask> pet''"
    unfolding mask_padding by (rule seed_has_mask)
  have h: "as_pairs (Many [[''dog'', ''pet'']]) = Inr [[''dog'', ''pet'']]
      \<and> seed_all padding_prompter [[''dog'', ''pet'']] 2 2 2 4 ''middle'' = Inr [''dog <mask> <mask> pet'']"
    by (intro conjI as_pairs_probe seed_padding)
  have k: "\<not> is_causal padding_prompter
      \<and> (\<exists>s\<in>set [''dog <mask> <mask> pet'']. contains (mask padding_prompter) s)"
    using not_causal_padding c by simp
  note t = replace_mask_padding_raises[OF padding_pads, where fuel=0
      and arg="Many [[''dog'', ''pet'']]"
      and n_blank=2 and n_revision=1 and topk=1 and n=1 and seed_type="''middle''"
      and batch_size=4 and pf=False and n_blank_prefix=2 and n_blank_suffix=2]
  note t' = replace_mask_padding_raises[OF padding_pads, where fuel=999
      and arg="Many [[''dog'', ''pet'']]"
      and n_blank=2 and n_revision=1 and topk=1 and n=1 and seed_type="''middle''"
      and batch_size=4 and pf=False and n_blank_prefix=2 and n_blank_suffix=2]
  note u = t[THEN conjunct2, THEN spec, THEN spec, THEN mp, OF h, THEN conjunct2, THEN mp, OF k]
  note u' = t'[THEN conjunct2, THEN spec, THEN spec, THEN mp, OF h, THEN conjunct2, THEN mp, OF k]
  have s1: "Suc 0 = 1" and s2: "Suc 999 = 1000" by simp_all
  note a = u[THEN conjunct1]
  note b = u[THEN conjunct2, unfolded s1]
  note d = u'[THEN conjunct2, unfolded s2]
  from padding_pads as_pairs_probe seed_padding not_causal_padding c a b d
  show ?thesis by (intro conjI)
qed

lemma candidate_padding:
  "''dog <mask> pet'' \<in> set (best_candidates padding_prompter ''dog'' ''pet'')"
  by code_simp

lemma candidate_padding_enc:
  "encode_plus padding_prompter ''dog <mask> pet'' True = Inl AssertionError"
  by code_simp

text \<open>
  C8 as stated fails for \<open>best\<close>: with a maximum length of 2 there is no candidate, and
  the minimum of the empty perplexity list raises; with a tokenizer that pads to the
  maximum length, here 8, the assertion of \<^verbatim>\<open>encode_plus\<close> fails for the first
  candidate.
\<close>

theorem pair_to_seed_best_counterexample:
  "pair_to_seed (word_prompter 2) [''dog'', ''pet''] 3 2 2 4 ''best'' = Inl ValueError
   \<and> max_length padding_prompter = 8
   \<and> pair_to_seed padding_prompter [''dog'', ''pet''] 3 2 2 4 ''best'' = Inl AssertionError"
proof -
  have a: "pair_to_seed (word_prompter 2) [''dog'', ''pet''] 3 2 2 4 ''best'' = Inl ValueError"
    by (simp add: pair_to_seed_def best_candidates_def word_prompter_def get_perplexity_Nil
        pick_min_def)
  have b: "max_length padding_prompter = 8"
    by (simp add: padding_prompter_def word_prompter_def)
  have "get_perplexity padding_prompter (best_candidates padding_prompter ''dog'' ''pet'') 4
      = Inl AssertionError"
    using padding_pads not_causal_padding candidate_padding candidate_padding_enc
    by (rule get_perplexity_padded)
  then have c: "pair_to_seed padding_prompter [''dog'', ''pet''] 3 2 2 4 ''best'' = Inl AssertionError"
    by (simp add: pair_to_seed_def)
  from a b c show ?thesis by (intro conjI)
qed

end
